theory Spec2Isabelle
  imports Main
begin

section \<open>Errors and the Durable Store\<close>

text \<open>
  The source throws plain \<open>Error(message)\<close> values. Each constructor below stands for one
  thrown message of \<open>CollaborationManager.ts\<close> or \<open>VersionManager.ts\<close>; \<open>message\<close> gives
  the text. A rejection of a Prisma call carries the text chosen by the store.
\<close>

datatype error =
    SessionNotFound
  | LockConflict
  | NotLockOwner
  | VersionNotFound
  | VersionsNotFound
  | PersistenceFailure string

fun message :: "error \<Rightarrow> string" where
  "message SessionNotFound = ''Session not found''"
| "message LockConflict = ''Asset is locked by another user''"
| "message NotLockOwner = ''Cannot release lock: not the lock owner''"
| "message VersionNotFound = ''Version not found''"
| "message VersionsNotFound = ''One or both versions not found''"
| "message (PersistenceFailure m) = m"

section \<open>Collaboration sessions (CollaborationManager.ts)\<close>

text \<open>Dates are milliseconds since the epoch, as \<open>Date.getTime\<close> reads them.\<close>

record user_entry =
  user_id :: string
  user_name :: string
  cursor :: "(int \<times> int) option"
  selection :: "(int \<times> int) option"

record lock =
  lock_userId :: string
  until :: int

record session =
  session_id :: string
  assetId :: string
  users :: "user_entry list"
  lastModified :: int
  locked :: "lock option"

datatype op_type = OpInsert | OpDelete | OpReplace | OpMove

record operation =
  op_type :: op_type
  position :: int
  op_content :: "string option"
  op_length :: "int option"
  newPosition :: "int option"
  op_userId :: string
  op_timestamp :: int

text \<open>A row of \<open>prisma.assetHistory\<close>; the column \<open>data\<close> holds the serialised operation.\<close>

record history_row =
  h_assetId :: string
  h_userId :: string
  h_operation :: op_type
  h_data :: operation
  h_timestamp :: int

text \<open>
  The manager's two in-memory maps, the two tables it writes, and the behaviour of the
  store: \<open>db_throws n\<close> is \<open>Some m\<close> when the \<open>n\<close>-th Prisma call of the run rejects with
  message \<open>m\<close> (whatever the cause), and \<open>db_calls\<close> counts the calls made so far.
\<close>

record collab =
  sessions :: "string \<rightharpoonup> session"
  operations :: "string \<rightharpoonup> operation list"
  assetHistory :: "history_row list"
  assetLock :: "string \<rightharpoonup> lock"
  db_throws :: "nat \<Rightarrow> string option"
  db_calls :: nat

definition LOCK_DURATION :: int where
  "LOCK_DURATION = 5 * 60 * 1000"

definition new_collab :: "(nat \<Rightarrow> string option) \<Rightarrow> collab" where
  "new_collab thr = \<lparr>sessions = Map.empty, operations = Map.empty, assetHistory = [],
     assetLock = Map.empty, db_throws = thr, db_calls = 0\<rparr>"

definition joinSession :: "collab \<Rightarrow> string \<Rightarrow> string \<Rightarrow> string \<Rightarrow> int \<Rightarrow> collab" where
  "joinSession st sessionId uid uname now =
     (let (s, st1) =
        (case sessions st sessionId of
           None \<Rightarrow>
             (let s0 = \<lparr>session_id = sessionId, assetId = sessionId, users = [],
                        lastModified = now, locked = None\<rparr>
              in (s0, st\<lparr>sessions := (sessions st)(sessionId \<mapsto> s0),
                         operations := (operations st)(sessionId \<mapsto> [])\<rparr>))
         | Some s \<Rightarrow> (s, st))
      in if find (\<lambda>u. user_id u = uid) (users s) = None
         then st1\<lparr>sessions := (sessions st1)(sessionId \<mapsto>
                s\<lparr>users := users s @
                  [\<lparr>user_id = uid, user_name = uname, cursor = None, selection = None\<rparr>]\<rparr>)\<rparr>
         else st1)"

definition leaveSession :: "collab \<Rightarrow> string \<Rightarrow> string \<Rightarrow> collab" where
  "leaveSession st sessionId uid =
     (case sessions st sessionId of
        None \<Rightarrow> st
      | Some s \<Rightarrow>
          (let us = filter (\<lambda>u. user_id u \<noteq> uid) (users s)
           in if length us = 0
              then st\<lparr>sessions := (sessions st)(sessionId := None),
                      operations := (operations st)(sessionId := None)\<rparr>
              else st\<lparr>sessions := (sessions st)(sessionId \<mapsto> s\<lparr>users := us\<rparr>)\<rparr>))"

definition getActiveUsers :: "collab \<Rightarrow> string \<Rightarrow> user_entry list" where
  "getActiveUsers st a = (case sessions st a of None \<Rightarrow> [] | Some s \<Rightarrow> users s)"

text \<open>The row that \<open>applyOperation\<close> hands to \<open>prisma.assetHistory.create\<close>.\<close>

definition history_of :: "string \<Rightarrow> operation \<Rightarrow> history_row" where
  "history_of sessionId operation =
     \<lparr>h_assetId = sessionId, h_userId = op_userId operation, h_operation = op_type operation,
      h_data = operation, h_timestamp = op_timestamp operation\<rparr>"

text \<open>
  The push and the assignment of \<open>lastModified\<close> come before the awaited \<open>create\<close>; a
  rejection leaves them in place and is thrown to the caller.
\<close>

definition applyOperation :: "collab \<Rightarrow> string \<Rightarrow> operation \<Rightarrow> (error + unit) \<times> collab" where
  "applyOperation st sessionId operation =
     (case operations st sessionId of
        None \<Rightarrow> (Inr (), st)
      | Some ops \<Rightarrow>
          (let st1 = st\<lparr>operations := (operations st)(sessionId \<mapsto> ops @ [operation])\<rparr>;
               st2 = (case sessions st1 sessionId of
                        None \<Rightarrow> st1
                      | Some s \<Rightarrow> st1\<lparr>sessions := (sessions st1)(sessionId \<mapsto>
                                     s\<lparr>lastModified := op_timestamp operation\<rparr>)\<rparr>);
               st3 = st2\<lparr>db_calls := Suc (db_calls st2)\<rparr>
           in case db_throws st (db_calls st) of
                Some m \<Rightarrow> (Inl (PersistenceFailure m), st3)
              | None \<Rightarrow> (Inr (), st3\<lparr>assetHistory :=
                           assetHistory st3 @ [history_of sessionId operation]\<rparr>)))"

text \<open>
  \<open>lockAsset\<close> reads the clock twice: \<open>new Date()\<close> in the test of the held lock
  (\<open>now_check\<close>) and \<open>Date.now()\<close> when it builds the new lock (\<open>now_grant\<close>).
  \<open>grantLock\<close> is its second half: the assignment of \<open>session.locked\<close> and the upsert.
\<close>

definition grantLock ::
  "collab \<Rightarrow> string \<Rightarrow> session \<Rightarrow> string \<Rightarrow> int \<Rightarrow> (error + unit) \<times> collab" where
  "grantLock st sessionId s uid now_grant =
     (let l = \<lparr>lock_userId = uid, until = now_grant + LOCK_DURATION\<rparr>;
          st1 = st\<lparr>sessions := (sessions st)(sessionId \<mapsto> s\<lparr>locked := Some l\<rparr>)\<rparr>;
          st2 = st1\<lparr>db_calls := Suc (db_calls st1)\<rparr>
      in case db_throws st (db_calls st) of
           Some m \<Rightarrow> (Inl (PersistenceFailure m), st2)
         | None \<Rightarrow> (Inr (), st2\<lparr>assetLock := (assetLock st2)(sessionId \<mapsto> l)\<rparr>))"

definition lockAsset ::
  "collab \<Rightarrow> string \<Rightarrow> string \<Rightarrow> int \<Rightarrow> int \<Rightarrow> (error + unit) \<times> collab" where
  "lockAsset st sessionId uid now_check now_grant =
     (case sessions st sessionId of
        None \<Rightarrow> (Inl SessionNotFound, st)
      | Some s \<Rightarrow>
          (case locked s of
             None \<Rightarrow> grantLock st sessionId s uid now_grant
           | Some l \<Rightarrow>
               if until l > now_check
               then (if lock_userId l \<noteq> uid then (Inl LockConflict, st) else (Inr (), st))
               else grantLock st sessionId s uid now_grant))"

definition releaseLock :: "collab \<Rightarrow> string \<Rightarrow> string \<Rightarrow> (error + unit) \<times> collab" where
  "releaseLock st sessionId uid =
     (case sessions st sessionId of
        None \<Rightarrow> (Inl SessionNotFound, st)
      | Some s \<Rightarrow>
          (case locked s of
             None \<Rightarrow> (Inl NotLockOwner, st)
           | Some l \<Rightarrow>
               if lock_userId l \<noteq> uid then (Inl NotLockOwner, st)
               else
                 (let st1 = st\<lparr>sessions := (sessions st)(sessionId \<mapsto> s\<lparr>locked := None\<rparr>)\<rparr>;
                      st2 = st1\<lparr>db_calls := Suc (db_calls st1)\<rparr>
                  in case db_throws st (db_calls st) of
                       Some m \<Rightarrow> (Inl (PersistenceFailure m), st2)
                     | None \<Rightarrow>
                         (Inr (), st2\<lparr>assetLock := (assetLock st2)(sessionId := None)\<rparr>))))"

definition canUserEdit :: "collab \<Rightarrow> string \<Rightarrow> string \<Rightarrow> int \<Rightarrow> bool \<times> collab" where
  "canUserEdit st sessionId uid now =
     (case sessions st sessionId of
        None \<Rightarrow> (False, st)
      | Some s \<Rightarrow>
          (case locked s of
             None \<Rightarrow> (True, st)
           | Some l \<Rightarrow>
               if until l \<le> now
               then (True, st\<lparr>sessions := (sessions st)(sessionId \<mapsto> s\<lparr>locked := None\<rparr>)\<rparr>)
               else (lock_userId l = uid, st)))"

text \<open>
  \<open>cleanup\<close>: one \<open>deleteMany\<close> on the expired lock rows, then every session without
  members is dropped together with its operation buffer.
\<close>

definition cleanup :: "collab \<Rightarrow> int \<Rightarrow> (error + unit) \<times> collab" where
  "cleanup st now =
     (let st1 = st\<lparr>db_calls := Suc (db_calls st)\<rparr>
      in case db_throws st (db_calls st) of
           Some m \<Rightarrow> (Inl (PersistenceFailure m), st1)
         | None \<Rightarrow>
            (Inr (),
             st1\<lparr>assetLock := (\<lambda>k. case assetLock st1 k of
                                     None \<Rightarrow> None
                                   | Some l \<Rightarrow> if until l < now then None else Some l),
                 sessions := (\<lambda>k. case sessions st1 k of
                                     None \<Rightarrow> None
                                   | Some s \<Rightarrow> if length (users s) = 0 then None else Some s),
                 operations := (\<lambda>k. case sessions st1 k of
                                     None \<Rightarrow> operations st1 k
                                   | Some s \<Rightarrow> if length (users s) = 0 then None
                                               else operations st1 k)\<rparr>))"

subsection \<open>The socket handlers\<close>

text \<open>
  A connection keeps the two closure variables \<open>userId\<close> and \<open>sessionId\<close>, undefined
  until a \<open>join\<close> event sets them. What a handler sends is returned as a list, in the
  order of the calls.
\<close>

record conn =
  conn_userId :: "string option"
  conn_sessionId :: "string option"

datatype event =
    EmitError string
  | BroadcastOperation string operation
  | BroadcastLockState string "lock option"

text \<open>\<open>!v\<close> for a variable that is undefined or a string: true for undefined and \<open>""\<close>.\<close>

definition falsy :: "string option \<Rightarrow> bool" where
  "falsy v = (case v of None \<Rightarrow> True | Some s \<Rightarrow> s = [])"

definition broadcastLockState :: "collab \<Rightarrow> string \<Rightarrow> event list" where
  "broadcastLockState st sessionId =
     (case sessions st sessionId of
        None \<Rightarrow> []
      | Some s \<Rightarrow> [BroadcastLockState sessionId (locked s)])"

text \<open>The operation the handler builds: \<open>{ ...data, userId, timestamp: new Date() }\<close>.\<close>

definition stamped :: "operation \<Rightarrow> string \<Rightarrow> int \<Rightarrow> operation" where
  "stamped data uid now_stamp = data\<lparr>op_userId := uid, op_timestamp := now_stamp\<rparr>"

definition on_operation ::
  "collab \<Rightarrow> conn \<Rightarrow> operation \<Rightarrow> int \<Rightarrow> int \<Rightarrow> event list \<times> collab" where
  "on_operation st c data now_check now_stamp =
     (case (conn_sessionId c, conn_userId c) of
        (Some sessionId, Some uid) \<Rightarrow>
          if falsy (Some sessionId) \<or> falsy (Some uid) then ([], st)
          else
            (case canUserEdit st sessionId uid now_check of
               (False, st1) \<Rightarrow> ([EmitError ''Asset is locked by another user''], st1)
             | (True, st1) \<Rightarrow>
                 (case applyOperation st1 sessionId (stamped data uid now_stamp) of
                    (Inl e, st2) \<Rightarrow> ([EmitError (message e)], st2)
                  | (Inr _, st2) \<Rightarrow>
                      ([BroadcastOperation sessionId (stamped data uid now_stamp)], st2)))
      | _ \<Rightarrow> ([], st))"

definition on_request_lock ::
  "collab \<Rightarrow> conn \<Rightarrow> int \<Rightarrow> int \<Rightarrow> event list \<times> collab" where
  "on_request_lock st c now_check now_grant =
     (case (conn_sessionId c, conn_userId c) of
        (Some sessionId, Some uid) \<Rightarrow>
          if falsy (Some sessionId) \<or> falsy (Some uid) then ([], st)
          else
            (case lockAsset st sessionId uid now_check now_grant of
               (Inl e, st1) \<Rightarrow> ([EmitError (message e)], st1)
             | (Inr _, st1) \<Rightarrow> (broadcastLockState st1 sessionId, st1))
      | _ \<Rightarrow> ([], st))"

definition on_release_lock :: "collab \<Rightarrow> conn \<Rightarrow> event list \<times> collab" where
  "on_release_lock st c =
     (case (conn_sessionId c, conn_userId c) of
        (Some sessionId, Some uid) \<Rightarrow>
          if falsy (Some sessionId) \<or> falsy (Some uid) then ([], st)
          else
            (case releaseLock st sessionId uid of
               (Inl e, st1) \<Rightarrow> ([EmitError (message e)], st1)
             | (Inr _, st1) \<Rightarrow> (broadcastLockState st1 sessionId, st1))
      | _ \<Rightarrow> ([], st))"

section \<open>The version store (VersionManager.ts)\<close>

datatype change_type = ChAdd | ChModify | ChDelete

datatype diff_op = DIFF_DELETE | DIFF_INSERT | DIFF_EQUAL

type_synonym diffs = "(diff_op \<times> string) list"

text \<open>
  An optional field of a \<open>Change\<close> is \<open>None\<close> when the object lacks it. The only
  metadata the manager ever writes is \<open>{ diffs }\<close>.
\<close>

record change =
  ctype :: change_type
  path :: string
  content :: "string option"
  previousContent :: "string option"
  metadata :: "diffs option"

text \<open>A version; its \<open>metadata\<close> field is always the empty object and is left out.\<close>

record version =
  version_id :: string
  v_assetId :: string
  v_userId :: string
  v_timestamp :: int
  changes :: "change list"
  tags :: "string list"
  description :: string

text \<open>
  The table \<open>prisma.assetVersion\<close> in insertion order, with the behaviour of the store
  as in \<open>collab\<close>.
\<close>

record vdb =
  assetVersion :: "version list"
  v_throws :: "nat \<Rightarrow> string option"
  v_calls :: nat

text \<open>
  One call of the Prisma client: whether it rejects, and the call counted. \<open>findUnique\<close>
  reads the row with a given id, \<open>updateUnique\<close> rewrites it (\<open>update\<close> with
  \<open>where: { id }\<close>).
\<close>

definition prisma :: "vdb \<Rightarrow> string option \<times> vdb" where
  "prisma db = (v_throws db (v_calls db), db\<lparr>v_calls := Suc (v_calls db)\<rparr>)"

definition findUnique :: "vdb \<Rightarrow> string \<Rightarrow> version option" where
  "findUnique db i = find (\<lambda>v. version_id v = i) (assetVersion db)"

fun updateUnique :: "string \<Rightarrow> (version \<Rightarrow> version) \<Rightarrow> version list \<Rightarrow> version list" where
  "updateUnique i f [] = []"
| "updateUnique i f (v # vs) =
     (if version_id v = i then f v # vs else v # updateUnique i f vs)"

text \<open>\<open>new_id\<close> is the result of \<open>uuidv4()\<close> and \<open>now\<close> of \<open>new Date()\<close>.\<close>

definition createVersion ::
  "vdb \<Rightarrow> string \<Rightarrow> string \<Rightarrow> change list \<Rightarrow> string \<Rightarrow> string list \<Rightarrow> string \<Rightarrow> int
     \<Rightarrow> (error + version) \<times> vdb" where
  "createVersion db a uid cs descr tgs new_id now =
     (let v = \<lparr>version_id = new_id, v_assetId = a, v_userId = uid, v_timestamp = now,
                changes = cs, tags = tgs, description = descr\<rparr>
      in case prisma db of
           (Some m, db1) \<Rightarrow> (Inl (PersistenceFailure m), db1)
         | (None, db1) \<Rightarrow> (Inr v, db1\<lparr>assetVersion := assetVersion db1 @ [v]\<rparr>))"

definition getVersion :: "vdb \<Rightarrow> string \<Rightarrow> (error + version option) \<times> vdb" where
  "getVersion db i =
     (case prisma db of
        (Some m, db1) \<Rightarrow> (Inl (PersistenceFailure m), db1)
      | (None, db1) \<Rightarrow> (Inr (findUnique db1 i), db1))"

text \<open>
  The body of the loop of \<open>compareVersions\<close> for one path. \<open>differ a b\<close> stands for
  \<open>diff_main(a, b)\<close> followed by \<open>diff_cleanupSemantic\<close>, from the library
  \<open>diff-match-patch\<close>.
\<close>

definition or_empty :: "string option \<Rightarrow> string" where
  "or_empty c = (case c of None \<Rightarrow> [] | Some s \<Rightarrow> s)"

definition comparePath ::
  "(string \<Rightarrow> string \<Rightarrow> diffs) \<Rightarrow> change list \<Rightarrow> change list \<Rightarrow> string \<Rightarrow> change option" where
  "comparePath differ cs1 cs2 p =
     (case find (\<lambda>c. path c = p) cs1 of
        None \<Rightarrow>
          Some \<lparr>ctype = ChAdd, path = p,
                content = (case find (\<lambda>c. path c = p) cs2 of
                             None \<Rightarrow> None | Some change2 \<Rightarrow> content change2),
                previousContent = None, metadata = None\<rparr>
      | Some change1 \<Rightarrow>
          (case find (\<lambda>c. path c = p) cs2 of
             None \<Rightarrow>
               Some \<lparr>ctype = ChDelete, path = p, content = None,
                     previousContent = content change1, metadata = None\<rparr>
           | Some change2 \<Rightarrow>
               if content change1 \<noteq> content change2
               then Some \<lparr>ctype = ChModify, path = p, content = content change2,
                          previousContent = content change1,
                          metadata = Some (differ (or_empty (content change1))
                                                  (or_empty (content change2)))\<rparr>
               else None))"

fun compareLoop ::
  "(string \<Rightarrow> string \<Rightarrow> diffs) \<Rightarrow> change list \<Rightarrow> change list \<Rightarrow> string list \<Rightarrow> change list" where
  "compareLoop differ cs1 cs2 [] = []"
| "compareLoop differ cs1 cs2 (p # ps) =
     (case comparePath differ cs1 cs2 p of
        None \<Rightarrow> compareLoop differ cs1 cs2 ps
      | Some c \<Rightarrow> c # compareLoop differ cs1 cs2 ps)"

text \<open>
  A JavaScript \<open>Set\<close> built from an array iterates in the order of first insertion.
\<close>

definition set_order :: "string list \<Rightarrow> string list" where
  "set_order xs = rev (remdups (rev xs))"

text \<open>The loop of \<open>compareVersions\<close> over the set of the paths of both versions.\<close>

definition diffChanges ::
  "(string \<Rightarrow> string \<Rightarrow> diffs) \<Rightarrow> change list \<Rightarrow> change list \<Rightarrow> change list" where
  "diffChanges differ cs1 cs2 =
     compareLoop differ cs1 cs2 (set_order (map path cs1 @ map path cs2))"

text \<open>
  Both reads of \<open>Promise.all\<close> are started before either result is looked at, so both
  count as calls even when one rejects.
\<close>

definition compareVersions ::
  "(string \<Rightarrow> string \<Rightarrow> diffs) \<Rightarrow> vdb \<Rightarrow> string \<Rightarrow> string \<Rightarrow> (error + change list) \<times> vdb" where
  "compareVersions differ db versionId1 versionId2 =
     (case getVersion db versionId1 of (r1, db1) \<Rightarrow>
      case getVersion db1 versionId2 of (r2, db2) \<Rightarrow>
        (case r1 of
           Inl e \<Rightarrow> (Inl e, db2)
         | Inr o1 \<Rightarrow>
            (case r2 of
               Inl e \<Rightarrow> (Inl e, db2)
             | Inr o2 \<Rightarrow>
                (case (o1, o2) of
                   (Some version1, Some version2) \<Rightarrow>
                     (Inr (diffChanges differ (changes version1) (changes version2)), db2)
                 | _ \<Rightarrow> (Inl VersionsNotFound, db2)))))"

definition inverseChange :: "change \<Rightarrow> change" where
  "inverseChange c =
     (case ctype c of
        ChAdd \<Rightarrow> \<lparr>ctype = ChDelete, path = path c, content = None,
                  previousContent = content c, metadata = None\<rparr>
      | ChDelete \<Rightarrow> \<lparr>ctype = ChAdd, path = path c, content = previousContent c,
                     previousContent = None, metadata = None\<rparr>
      | ChModify \<Rightarrow> \<lparr>ctype = ChModify, path = path c, content = previousContent c,
                     previousContent = content c, metadata = None\<rparr>)"

definition revertToVersion ::
  "vdb \<Rightarrow> string \<Rightarrow> string \<Rightarrow> string \<Rightarrow> string \<Rightarrow> int \<Rightarrow> (error + version) \<times> vdb" where
  "revertToVersion db a versionId uid new_id now =
     (case getVersion db versionId of
        (Inl e, db1) \<Rightarrow> (Inl e, db1)
      | (Inr None, db1) \<Rightarrow> (Inl VersionNotFound, db1)
      | (Inr (Some v), db1) \<Rightarrow>
          createVersion db1 a uid (map inverseChange (changes v))
            (''Reverted to version '' @ versionId) [''revert''] new_id now)"

text \<open>\<open>tags: { push: tag }\<close> appends to the stored list of the row.\<close>

definition addTag :: "vdb \<Rightarrow> string \<Rightarrow> string \<Rightarrow> (error + unit) \<times> vdb" where
  "addTag db versionId tag =
     (case prisma db of
        (Some m, db1) \<Rightarrow> (Inl (PersistenceFailure m), db1)
      | (None, db1) \<Rightarrow>
          (case findUnique db1 versionId of
             None \<Rightarrow> (Inl VersionNotFound, db1)
           | Some v \<Rightarrow>
               (case prisma db1 of
                  (Some m, db2) \<Rightarrow> (Inl (PersistenceFailure m), db2)
                | (None, db2) \<Rightarrow>
                    (Inr (), db2\<lparr>assetVersion :=
                       updateUnique versionId (\<lambda>r. r\<lparr>tags := tags r @ [tag]\<rparr>)
                         (assetVersion db2)\<rparr>))))"

definition removeTag :: "vdb \<Rightarrow> string \<Rightarrow> string \<Rightarrow> (error + unit) \<times> vdb" where
  "removeTag db versionId tag =
     (case prisma db of
        (Some m, db1) \<Rightarrow> (Inl (PersistenceFailure m), db1)
      | (None, db1) \<Rightarrow>
          (case findUnique db1 versionId of
             None \<Rightarrow> (Inl VersionNotFound, db1)
           | Some v \<Rightarrow>
               (case prisma db1 of
                  (Some m, db2) \<Rightarrow> (Inl (PersistenceFailure m), db2)
                | (None, db2) \<Rightarrow>
                    (Inr (), db2\<lparr>assetVersion :=
                       updateUnique versionId (\<lambda>r. r\<lparr>tags := filter (\<lambda>t. t \<noteq> tag) (tags v)\<rparr>)
                         (assetVersion db2)\<rparr>))))"

section \<open>Notions of the specification\<close>

text \<open>
  The lock of a session when it has not expired at \<open>now\<close> (the test of \<open>lockAsset\<close>),
  who holds it, and the lock field as it stands in memory.
\<close>

definition active_lock :: "collab \<Rightarrow> string \<Rightarrow> int \<Rightarrow> lock option" where
  "active_lock st a now =
     (case sessions st a of
        None \<Rightarrow> None
      | Some s \<Rightarrow>
          (case locked s of
             None \<Rightarrow> None
           | Some l \<Rightarrow> if until l > now then Some l else None))"

definition holds_lock :: "collab \<Rightarrow> string \<Rightarrow> int \<Rightarrow> string \<Rightarrow> bool" where
  "holds_lock st a now u = (map_option lock_userId (active_lock st a now) = Some u)"

definition memory_lock :: "collab \<Rightarrow> string \<Rightarrow> lock option" where
  "memory_lock st a = (case sessions st a of None \<Rightarrow> None | Some s \<Rightarrow> locked s)"

text \<open>Sessions and operation buffers are created and dropped together.\<close>

definition registry_inv :: "collab \<Rightarrow> bool" where
  "registry_inv st = (dom (sessions st) = dom (operations st))"

text \<open>A connection that passes the guard \<open>if (!sessionId || !userId) return\<close>.\<close>

definition bound :: "conn \<Rightarrow> string \<Rightarrow> string \<Rightarrow> bool" where
  "bound c a u = (conn_sessionId c = Some a \<and> conn_userId c = Some u \<and> a \<noteq> [] \<and> u \<noteq> [])"

text \<open>The number of stored versions of an asset.\<close>

definition count_for :: "vdb \<Rightarrow> string \<Rightarrow> nat" where
  "count_for db a = length (filter (\<lambda>v. v_assetId v = a) (assetVersion db))"

text \<open>
  The changes of a result for one path, the first change of a version for a path, the
  stored tags of a version, and how often a tag occurs among them.
\<close>

definition changes_at :: "change list \<Rightarrow> string \<Rightarrow> change list" where
  "changes_at cs p = filter (\<lambda>c. path c = p) cs"

definition first_at :: "change list \<Rightarrow> string \<Rightarrow> change option" where
  "first_at cs p = find (\<lambda>c. path c = p) cs"

definition tags_of :: "vdb \<Rightarrow> string \<Rightarrow> string list option" where
  "tags_of db i = map_option tags (findUnique db i)"

definition tag_count :: "vdb \<Rightarrow> string \<Rightarrow> string \<Rightarrow> nat" where
  "tag_count db i t = (case tags_of db i of None \<Rightarrow> 0 | Some ts \<Rightarrow> count_list ts t)"

subsection \<open>Example states\<close>

definition ex_session :: "lock option \<Rightarrow> session" where
  "ex_session l = \<lparr>session_id = ''doc-1'', assetId = ''doc-1'',
     users = [\<lparr>user_id = ''u1'', user_name = ''Ada'', cursor = None, selection = None\<rparr>],
     lastModified = 0, locked = l\<rparr>"

definition ex_collab :: "lock option \<Rightarrow> string option \<Rightarrow> collab" where
  "ex_collab l thr = \<lparr>sessions = [''doc-1'' \<mapsto> ex_session l], operations = [''doc-1'' \<mapsto> []],
     assetHistory = [], assetLock = Map.empty, db_throws = (\<lambda>n. thr), db_calls = 0\<rparr>"

definition ex_session2 :: session where
  "ex_session2 = \<lparr>session_id = ''doc-1'', assetId = ''doc-1'',
     users = [\<lparr>user_id = ''u1'', user_name = ''Ada'', cursor = None, selection = None\<rparr>,
              \<lparr>user_id = ''u2'', user_name = ''Bob'', cursor = None, selection = None\<rparr>],
     lastModified = 0, locked = None\<rparr>"

definition ex_collab2 :: collab where
  "ex_collab2 = \<lparr>sessions = [''doc-1'' \<mapsto> ex_session2], operations = [''doc-1'' \<mapsto> []],
     assetHistory = [], assetLock = Map.empty, db_throws = (\<lambda>n. None), db_calls = 0\<rparr>"

definition ex_conn :: "string \<Rightarrow> conn" where
  "ex_conn u = \<lparr>conn_userId = Some u, conn_sessionId = Some ''doc-1''\<rparr>"

definition ex_op :: operation where
  "ex_op = \<lparr>op_type = OpInsert, position = 0, op_content = Some ''hi'', op_length = None,
     newPosition = None, op_userId = '''', op_timestamp = 0\<rparr>"

definition ex_empty :: collab where
  "ex_empty = new_collab (\<lambda>n. None)"

definition ex_version :: "string list \<Rightarrow> version" where
  "ex_version tgs = \<lparr>version_id = ''v1'', v_assetId = ''doc-1'', v_userId = ''u1'', v_timestamp = 10,
     changes = [\<lparr>ctype = ChAdd, path = ''/a.txt'', content = Some ''hello'',
                 previousContent = None, metadata = None\<rparr>],
     tags = tgs, description = ''first''\<rparr>"

definition ex_vdb :: "string list \<Rightarrow> vdb" where
  "ex_vdb tgs = \<lparr>assetVersion = [ex_version tgs], v_throws = (\<lambda>n. None), v_calls = 0\<rparr>"

definition ex_differ :: "string \<Rightarrow> string \<Rightarrow> diffs" where
  "ex_differ x y = [(DIFF_DELETE, x), (DIFF_INSERT, y)]"

definition ex_version2 :: version where
  "ex_version2 = \<lparr>version_id = ''v2'', v_assetId = ''doc-1'', v_userId = ''u1'', v_timestamp = 20,
     changes = [\<lparr>ctype = ChModify, path = ''/a.txt'', content = Some ''world'',
                 previousContent = Some ''hello'', metadata = None\<rparr>,
                \<lparr>ctype = ChAdd, path = ''/b.txt'', content = Some ''new'',
                 previousContent = None, metadata = None\<rparr>],
     tags = [], description = ''second''\<rparr>"

definition ex_vdb2 :: vdb where
  "ex_vdb2 = \<lparr>assetVersion = [ex_version [], ex_version2], v_throws = (\<lambda>n. None), v_calls = 0\<rparr>"

section \<open>Basic facts about the registry\<close>

lemma canUserEdit_expired:
  "sessions st a = Some s \<Longrightarrow> locked s = Some l \<Longrightarrow> until l < now \<Longrightarrow>
   canUserEdit st a u now = (True, st\<lparr>sessions := (sessions st)(a \<mapsto> s\<lparr>locked := None\<rparr>)\<rparr>)"
  by (simp add: canUserEdit_def)

lemma on_operation_bound:
  "bound c a u \<Longrightarrow>
   on_operation st c data now now2 =
     (case canUserEdit st a u now of
        (False, st1) \<Rightarrow> ([EmitError ''Asset is locked by another user''], st1)
      | (True, st1) \<Rightarrow>
          (case applyOperation st1 a (stamped data u now2) of
             (Inl e, st2) \<Rightarrow> ([EmitError (message e)], st2)
           | (Inr _, st2) \<Rightarrow> ([BroadcastOperation a (stamped data u now2)], st2)))"
  by (auto simp: on_operation_def bound_def falsy_def split: prod.splits bool.splits sum.splits)

lemma canUserEdit_store:
  "assetHistory (snd (canUserEdit st a u now)) = assetHistory st \<and>
   db_calls (snd (canUserEdit st a u now)) = db_calls st \<and>
   db_throws (snd (canUserEdit st a u now)) = db_throws st \<and>
   operations (snd (canUserEdit st a u now)) = operations st"
  by (simp add: canUserEdit_def split: option.splits)

lemma canUserEdit_session:
  "fst (canUserEdit st a u now) \<Longrightarrow>
   \<exists>s. sessions st a = Some s \<and>
       (\<exists>s'. sessions (snd (canUserEdit st a u now)) a = Some s')"
  by (auto simp: canUserEdit_def split: option.splits if_splits)

lemma applyOperation_throws:
  "operations st a = Some ops \<Longrightarrow> db_throws st (db_calls st) = Some m \<Longrightarrow>
   fst (applyOperation st a op) = Inl (PersistenceFailure m) \<and>
   operations (snd (applyOperation st a op)) a = Some (ops @ [op]) \<and>
   assetHistory (snd (applyOperation st a op)) = assetHistory st \<and>
   db_calls (snd (applyOperation st a op)) = Suc (db_calls st) \<and>
   (sessions st a \<noteq> None \<longrightarrow>
      map_option lastModified (sessions (snd (applyOperation st a op)) a) = Some (op_timestamp op))"
  by (auto simp: applyOperation_def Let_def split: option.splits)

lemma applyOperation_ok:
  "operations st a = Some ops \<Longrightarrow> db_throws st (db_calls st) = None \<Longrightarrow>
   fst (applyOperation st a op) = Inr () \<and>
   operations (snd (applyOperation st a op)) a = Some (ops @ [op]) \<and>
   assetHistory (snd (applyOperation st a op)) = assetHistory st @ [history_of a op] \<and>
   db_calls (snd (applyOperation st a op)) = Suc (db_calls st)"
  by (auto simp: applyOperation_def Let_def split: option.splits)

lemma grantLock_memory:
  "memory_lock (snd (grantLock st a s u now')) a = Some \<lparr>lock_userId = u, until = now' + LOCK_DURATION\<rparr>"
  by (simp add: grantLock_def memory_lock_def Let_def split: option.splits)

lemma grantLock_ok:
  "db_throws st (db_calls st) = None \<Longrightarrow>
   fst (grantLock st a s u now') = Inr () \<and>
   assetLock (snd (grantLock st a s u now')) a = Some \<lparr>lock_userId = u, until = now' + LOCK_DURATION\<rparr>"
  by (simp add: grantLock_def Let_def)

section \<open>Locks\<close>

text \<open>
  C1. A session has one optional lock field, so at any time at most one user holds a lock
  that has not expired. \<open>lockAsset\<close> by another user while such a lock is held fails with
  \<open>LockConflict\<close> and changes nothing; by the holder it succeeds and changes nothing (the
  expiry is not extended); with no lock or an expired one it sets the lock of the caller to
  expire \<open>LOCK_DURATION\<close> (five minutes) after the clock reading, and when the store accepts
  the upsert the call succeeds and the lock row holds the same lock.
\<close>

theorem lock_exclusivity:
  assumes "sessions st a = Some s"
  shows "(holds_lock st a now h \<and> holds_lock st a now h' \<longrightarrow> h = h') \<and>
         (holds_lock st a now h \<and> h \<noteq> u \<longrightarrow> lockAsset st a u now now' = (Inl LockConflict, st)) \<and>
         (holds_lock st a now u \<longrightarrow> lockAsset st a u now now' = (Inr (), st)) \<and>
         (active_lock st a now = None \<longrightarrow>
            memory_lock (snd (lockAsset st a u now now')) a =
              Some \<lparr>lock_userId = u, until = now' + LOCK_DURATION\<rparr> \<and>
            (db_throws st (db_calls st) = None \<longrightarrow>
               fst (lockAsset st a u now now') = Inr () \<and>
               assetLock (snd (lockAsset st a u now now')) a =
                 Some \<lparr>lock_userId = u, until = now' + LOCK_DURATION\<rparr>)) \<and>
         LOCK_DURATION = 5 * 60 * 1000"
proof (intro conjI impI)
  show "LOCK_DURATION = 5 * 60 * 1000" by (simp add: LOCK_DURATION_def)
next
  assume "holds_lock st a now h \<and> holds_lock st a now h'"
  then show "h = h'" by (auto simp: holds_lock_def)
next
  assume "holds_lock st a now h \<and> h \<noteq> u"
  with assms show "lockAsset st a u now now' = (Inl LockConflict, st)"
    by (auto simp: holds_lock_def active_lock_def lockAsset_def split: option.splits if_splits)
next
  assume "holds_lock st a now u"
  with assms show "lockAsset st a u now now' = (Inr (), st)"
    by (auto simp: holds_lock_def active_lock_def lockAsset_def split: option.splits if_splits)
next
  assume n: "active_lock st a now = None"
  with assms have eq: "lockAsset st a u now now' = grantLock st a s u now'"
    by (auto simp: active_lock_def lockAsset_def split: option.splits if_splits)
  show "memory_lock (snd (lockAsset st a u now now')) a =
          Some \<lparr>lock_userId = u, until = now' + LOCK_DURATION\<rparr>"
    by (simp add: eq grantLock_memory)
  assume "db_throws st (db_calls st) = None"
  then show "fst (lockAsset st a u now now') = Inr ()"
    and "assetLock (snd (lockAsset st a u now now')) a =
          Some \<lparr>lock_userId = u, until = now' + LOCK_DURATION\<rparr>"
    by (simp_all add: eq grantLock_ok)
qed

theorem lock_exclusivity_witness:
  "lockAsset (ex_collab (Some \<lparr>lock_userId = ''u1'', until = 100\<rparr>) None) ''doc-1'' ''u2'' 50 50 =
     (Inl LockConflict, ex_collab (Some \<lparr>lock_userId = ''u1'', until = 100\<rparr>) None) \<and>
   lockAsset (ex_collab (Some \<lparr>lock_userId = ''u1'', until = 100\<rparr>) None) ''doc-1'' ''u1'' 50 50 =
     (Inr (), ex_collab (Some \<lparr>lock_userId = ''u1'', until = 100\<rparr>) None) \<and>
   memory_lock (snd (lockAsset (ex_collab (Some \<lparr>lock_userId = ''u1'', until = 100\<rparr>) None)
       ''doc-1'' ''u2'' 100 101)) ''doc-1'' = Some \<lparr>lock_userId = ''u2'', until = 300101\<rparr> \<and>
   fst (lockAsset (ex_collab None None) ''doc-1'' ''u2'' 7 8) = Inr () \<and>
   assetLock (snd (lockAsset (ex_collab None None) ''doc-1'' ''u2'' 7 8)) ''doc-1'' =
     Some \<lparr>lock_userId = ''u2'', until = 300008\<rparr>"
  using lock_exclusivity [of "ex_collab (Some \<lparr>lock_userId = ''u1'', until = 100\<rparr>) None" "''doc-1''"
          "ex_session (Some \<lparr>lock_userId = ''u1'', until = 100\<rparr>)" 50 "''u1''" "''u1''" "''u2''" 50]
        lock_exclusivity [of "ex_collab (Some \<lparr>lock_userId = ''u1'', until = 100\<rparr>) None" "''doc-1''"
          "ex_session (Some \<lparr>lock_userId = ''u1'', until = 100\<rparr>)" 50 "''u1''" "''u1''" "''u1''" 50]
        lock_exclusivity [of "ex_collab (Some \<lparr>lock_userId = ''u1'', until = 100\<rparr>) None" "''doc-1''"
          "ex_session (Some \<lparr>lock_userId = ''u1'', until = 100\<rparr>)" 100 "''u1''" "''u1''" "''u2''" 101]
        lock_exclusivity [of "ex_collab None None" "''doc-1''" "ex_session None" 7 "''u1''" "''u1''" "''u2''" 8]
  by (simp add: ex_collab_def ex_session_def holds_lock_def active_lock_def LOCK_DURATION_def)

section \<open>Expired locks\<close>

text \<open>
  C2. When the lock of a session expired before \<open>now\<close>, \<open>canUserEdit\<close> (the check of the
  operation handler) permits the edit of any user and drops the lock, so that the handler
  broadcasts the operation of any user once the store has accepted its record; and
  \<open>lockAsset\<close> by any user, the old holder or another, puts the caller's fresh lock in
  place of the old one without a release, and succeeds when the store accepts the upsert.
\<close>

theorem expired_lock_is_absent:
  assumes "sessions st a = Some s" and "locked s = Some l" and "until l < now"
  shows "fst (canUserEdit st a u now) \<and>
         memory_lock (snd (canUserEdit st a u now)) a = None \<and>
         (bound c a u \<and> operations st a \<noteq> None \<and> db_throws st (db_calls st) = None \<longrightarrow>
            fst (on_operation st c data now now2) =
              [BroadcastOperation a (stamped data u now2)]) \<and>
         memory_lock (snd (lockAsset st a u now now')) a =
           Some \<lparr>lock_userId = u, until = now' + LOCK_DURATION\<rparr> \<and>
         (db_throws st (db_calls st) = None \<longrightarrow>
            fst (lockAsset st a u now now') = Inr () \<and>
            assetLock (snd (lockAsset st a u now now')) a =
              Some \<lparr>lock_userId = u, until = now' + LOCK_DURATION\<rparr>)"
proof -
  let ?st1 = "st\<lparr>sessions := (sessions st)(a \<mapsto> s\<lparr>locked := None\<rparr>)\<rparr>"
  from assms have ce: "canUserEdit st a u now = (True, ?st1)"
    by (rule canUserEdit_expired)
  from assms have eq: "lockAsset st a u now now' = grantLock st a s u now'"
    by (simp add: lockAsset_def)
  have sub: "fst (on_operation st c data now now2) =
      [BroadcastOperation a (stamped data u now2)]"
    if b: "bound c a u" and o: "operations st a \<noteq> None"
      and d: "db_throws st (db_calls st) = None"
  proof -
    from o obtain ops where "operations ?st1 a = Some ops" by auto
    moreover from d have "db_throws ?st1 (db_calls ?st1) = None" by simp
    ultimately have "fst (applyOperation ?st1 a (stamped data u now2)) = Inr ()"
      using applyOperation_ok [of ?st1 a ops "stamped data u now2"] by simp
    then show ?thesis
      by (auto simp: on_operation_bound [OF b] ce split: prod.splits sum.splits)
  qed
  from ce have "fst (canUserEdit st a u now)"
    and "memory_lock (snd (canUserEdit st a u now)) a = None"
    by (simp_all add: memory_lock_def)
  with sub show ?thesis
    by (simp add: eq grantLock_memory grantLock_ok)
qed

theorem expired_lock_is_absent_witness:
  "fst (canUserEdit (ex_collab (Some \<lparr>lock_userId = ''u1'', until = 100\<rparr>) None) ''doc-1'' ''u2'' 101) \<and>
   fst (on_operation (ex_collab (Some \<lparr>lock_userId = ''u1'', until = 100\<rparr>) None) (ex_conn ''u2'')
          ex_op 101 102) = [BroadcastOperation ''doc-1'' (stamped ex_op ''u2'' 102)] \<and>
   memory_lock (snd (lockAsset (ex_collab (Some \<lparr>lock_userId = ''u1'', until = 100\<rparr>) None)
       ''doc-1'' ''u2'' 101 102)) ''doc-1'' = Some \<lparr>lock_userId = ''u2'', until = 300102\<rparr> \<and>
   fst (lockAsset (ex_collab (Some \<lparr>lock_userId = ''u1'', until = 100\<rparr>) None)
       ''doc-1'' ''u2'' 101 102) = Inr ()"
  using expired_lock_is_absent [of "ex_collab (Some \<lparr>lock_userId = ''u1'', until = 100\<rparr>) None"
          "''doc-1''" "ex_session (Some \<lparr>lock_userId = ''u1'', until = 100\<rparr>)"
          "\<lparr>lock_userId = ''u1'', until = 100\<rparr>" 101 "''u2''" "ex_conn ''u2''" ex_op 102 102]
  by (simp add: ex_collab_def ex_session_def ex_conn_def bound_def LOCK_DURATION_def)

section \<open>Releasing a lock\<close>

text \<open>
  C9, as stated, fails: \<open>releaseLock\<close> never reads the clock. A lock that expired at 100
  is no lock at time 500, yet its holder releases it with success instead of
  \<open>NotLockOwner\<close>.
\<close>

theorem releaseLock_expired_counterexample:
  "active_lock (ex_collab (Some \<lparr>lock_userId = ''u1'', until = 100\<rparr>) None) ''doc-1'' 500 = None \<and>
   fst (releaseLock (ex_collab (Some \<lparr>lock_userId = ''u1'', until = 100\<rparr>) None) ''doc-1'' ''u1'')
     \<noteq> Inl NotLockOwner \<and>
   fst (releaseLock (ex_collab (Some \<lparr>lock_userId = ''u1'', until = 100\<rparr>) None) ''doc-1'' ''u1'')
     = Inr ()"
  by (simp add: ex_collab_def ex_session_def active_lock_def releaseLock_def Let_def)

text \<open>
  C9, amended. In an existing session \<open>releaseLock\<close> fails with \<open>NotLockOwner\<close> and changes
  nothing whenever the lock field is empty or names another user, expired or not. When it
  names the caller the lock is removed from memory, and when the store accepts the delete
  the call succeeds and the lock row is gone.
\<close>

theorem releaseLock_owner_only:
  assumes "sessions st a = Some s"
  shows "(memory_lock st a = None \<or> map_option lock_userId (memory_lock st a) \<noteq> Some u \<longrightarrow>
            releaseLock st a u = (Inl NotLockOwner, st)) \<and>
         (map_option lock_userId (memory_lock st a) = Some u \<longrightarrow>
            memory_lock (snd (releaseLock st a u)) a = None \<and>
            (db_throws st (db_calls st) = None \<longrightarrow>
               fst (releaseLock st a u) = Inr () \<and>
               assetLock (snd (releaseLock st a u)) a = None))"
  using assms
  by (auto simp: releaseLock_def memory_lock_def Let_def split: option.splits)

theorem releaseLock_owner_only_witness:
  "releaseLock (ex_collab (Some \<lparr>lock_userId = ''u1'', until = 100\<rparr>) None) ''doc-1'' ''u2'' =
     (Inl NotLockOwner, ex_collab (Some \<lparr>lock_userId = ''u1'', until = 100\<rparr>) None) \<and>
   releaseLock (ex_collab None None) ''doc-1'' ''u1'' = (Inl NotLockOwner, ex_collab None None) \<and>
   memory_lock (snd (releaseLock (ex_collab (Some \<lparr>lock_userId = ''u1'', until = 100\<rparr>) None)
      ''doc-1'' ''u1'')) ''doc-1'' = None \<and>
   fst (releaseLock (ex_collab (Some \<lparr>lock_userId = ''u1'', until = 100\<rparr>) None) ''doc-1'' ''u1'')
     = Inr ()"
  using releaseLock_owner_only [of "ex_collab (Some \<lparr>lock_userId = ''u1'', until = 100\<rparr>) None"
          "''doc-1''" "ex_session (Some \<lparr>lock_userId = ''u1'', until = 100\<rparr>)" "''u2''"]
        releaseLock_owner_only [of "ex_collab None None" "''doc-1''" "ex_session None" "''u1''"]
        releaseLock_owner_only [of "ex_collab (Some \<lparr>lock_userId = ''u1'', until = 100\<rparr>) None"
          "''doc-1''" "ex_session (Some \<lparr>lock_userId = ''u1'', until = 100\<rparr>)" "''u1''"]
  by (simp add: ex_collab_def ex_session_def memory_lock_def)

section \<open>Actions without a session\<close>

text \<open>
  C8. On a registry without any session, the handlers of \<open>request-lock\<close> and
  \<open>release-lock\<close> report \<open>Session not found\<close>, but the handler of \<open>operation\<close> reports
  \<open>Asset is locked by another user\<close>, the message of a lock conflict.
\<close>

theorem operation_without_session_reports_lock:
  "on_operation ex_empty (ex_conn ''u1'') ex_op 5 6 =
     ([EmitError (message LockConflict)], ex_empty) \<and>
   message LockConflict \<noteq> message SessionNotFound \<and>
   on_request_lock ex_empty (ex_conn ''u1'') 5 6 =
     ([EmitError (message SessionNotFound)], ex_empty) \<and>
   on_release_lock ex_empty (ex_conn ''u1'') =
     ([EmitError (message SessionNotFound)], ex_empty)"
  by (simp add: on_operation_def on_request_lock_def on_release_lock_def ex_empty_def new_collab_def
      ex_conn_def falsy_def canUserEdit_def lockAsset_def releaseLock_def)

section \<open>Submitting an operation\<close>

text \<open>
  C3. On a connection that has joined, in a registry state where every session has its
  operation buffer: if the handler broadcasts an operation, it is the stamped operation of
  this call, the store accepted the history record, and both the buffer and the history
  table end with it. If the store rejects the record of a permitted edit, the handler
  sends only the store's message to the submitter, the history table is unchanged and the
  store was called exactly once.
\<close>

theorem broadcast_after_persist:
  assumes b: "bound c a u" and inv: "registry_inv st"
  shows "(BroadcastOperation x op \<in> set (fst (on_operation st c data now now2)) \<longrightarrow>
            x = a \<and> op = stamped data u now2 \<and>
            db_throws st (db_calls st) = None \<and>
            (\<exists>ops. operations st a = Some ops \<and>
               operations (snd (on_operation st c data now now2)) a = Some (ops @ [op])) \<and>
            assetHistory (snd (on_operation st c data now now2)) =
              assetHistory st @ [history_of a op]) \<and>
         (db_throws st (db_calls st) = Some m \<and> fst (canUserEdit st a u now) \<longrightarrow>
            fst (on_operation st c data now now2) = [EmitError m] \<and>
            assetHistory (snd (on_operation st c data now now2)) = assetHistory st \<and>
            db_calls (snd (on_operation st c data now now2)) = Suc (db_calls st))"
proof (cases "fst (canUserEdit st a u now)")
  case False
  then have "on_operation st c data now now2 =
      ([EmitError ''Asset is locked by another user''], snd (canUserEdit st a u now))"
    by (auto simp: on_operation_bound [OF b] split: prod.splits bool.splits)
  with False show ?thesis by simp
next
  case True
  define st1 where "st1 = snd (canUserEdit st a u now)"
  have ce: "canUserEdit st a u now = (True, st1)"
    using True by (simp add: st1_def prod_eq_iff)
  from canUserEdit_session [OF True] obtain s where s: "sessions st a = Some s" by blast
  with inv obtain ops where ops: "operations st a = Some ops"
    by (auto simp: registry_inv_def dom_def set_eq_iff)
  have st1: "operations st1 a = Some ops" "db_throws st1 = db_throws st"
    "db_calls st1 = db_calls st" "assetHistory st1 = assetHistory st"
    using canUserEdit_store [of st a u now] ops by (simp_all add: st1_def)
  show ?thesis
  proof (cases "db_throws st (db_calls st)")
    case None
    then have "db_throws st1 (db_calls st1) = None" by (simp add: st1)
    from applyOperation_ok [OF st1(1) this, of "stamped data u now2"]
    show ?thesis
      using None ops
      by (auto simp: on_operation_bound [OF b] ce st1 split: prod.splits sum.splits)
  next
    case (Some m')
    then have "db_throws st1 (db_calls st1) = Some m'" by (simp add: st1)
    from applyOperation_throws [OF st1(1) this, of "stamped data u now2"]
    show ?thesis
      using Some
      by (auto simp: on_operation_bound [OF b] ce st1 split: prod.splits sum.splits)
  qed
qed

text \<open>
  C10. When the store rejects the history record of a permitted edit, the stamped operation
  is nevertheless at the end of the session's buffer and \<open>lastModified\<close> is its timestamp;
  only the error goes out, to the submitter, and nothing is broadcast or persisted.
\<close>

theorem memory_kept_on_persist_failure:
  assumes b: "bound c a u" and s: "sessions st a = Some s" and ops: "operations st a = Some ops"
    and ok: "fst (canUserEdit st a u now)"
    and thr: "db_throws st (db_calls st) = Some m"
  shows "operations (snd (on_operation st c data now now2)) a =
           Some (ops @ [stamped data u now2]) \<and>
         map_option lastModified (sessions (snd (on_operation st c data now now2)) a) =
           Some now2 \<and>
         fst (on_operation st c data now now2) = [EmitError m] \<and>
         assetHistory (snd (on_operation st c data now now2)) = assetHistory st"
proof -
  define st1 where "st1 = snd (canUserEdit st a u now)"
  have ce: "canUserEdit st a u now = (True, st1)"
    using ok by (simp add: st1_def prod_eq_iff)
  have st1: "operations st1 a = Some ops" "db_throws st1 (db_calls st1) = Some m"
    "assetHistory st1 = assetHistory st"
    using canUserEdit_store [of st a u now] ops thr by (simp_all add: st1_def)
  from canUserEdit_session [OF ok] have s1: "sessions st1 a \<noteq> None"
    by (auto simp: st1_def)
  from applyOperation_throws [OF st1(1) st1(2), of "stamped data u now2"] s1
  show ?thesis
    by (auto simp: on_operation_bound [OF b] ce st1 stamped_def split: prod.splits sum.splits)
qed

theorem broadcast_after_persist_witness:
  "fst (on_operation (ex_collab None None) (ex_conn ''u1'') ex_op 5 6) =
     [BroadcastOperation ''doc-1'' (stamped ex_op ''u1'' 6)] \<and>
   assetHistory (snd (on_operation (ex_collab None None) (ex_conn ''u1'') ex_op 5 6)) =
     [history_of ''doc-1'' (stamped ex_op ''u1'' 6)] \<and>
   fst (on_operation (ex_collab None (Some ''db down'')) (ex_conn ''u1'') ex_op 5 6) =
     [EmitError ''db down''] \<and>
   assetHistory (snd (on_operation (ex_collab None (Some ''db down'')) (ex_conn ''u1'') ex_op 5 6)) = [] \<and>
   db_calls (snd (on_operation (ex_collab None (Some ''db down'')) (ex_conn ''u1'') ex_op 5 6)) = 1"
  using broadcast_after_persist [of "ex_conn ''u1''" "''doc-1''" "''u1''" "ex_collab None None"
          "''doc-1''" "stamped ex_op ''u1'' 6" ex_op 5 6 "''x''"]
        broadcast_after_persist [of "ex_conn ''u1''" "''doc-1''" "''u1''"
          "ex_collab None (Some ''db down'')" "''doc-1''" "stamped ex_op ''u1'' 6" ex_op 5 6 "''db down''"]
  by (simp add: ex_collab_def ex_session_def ex_conn_def bound_def registry_inv_def
      on_operation_def falsy_def canUserEdit_def applyOperation_def Let_def)

theorem memory_kept_on_persist_failure_witness:
  "operations (snd (on_operation (ex_collab None (Some ''db down'')) (ex_conn ''u1'') ex_op 5 6))
      ''doc-1'' = Some [stamped ex_op ''u1'' 6] \<and>
   map_option lastModified
     (sessions (snd (on_operation (ex_collab None (Some ''db down'')) (ex_conn ''u1'') ex_op 5 6))
        ''doc-1'') = Some 6 \<and>
   fst (on_operation (ex_collab None (Some ''db down'')) (ex_conn ''u1'') ex_op 5 6) =
     [EmitError ''db down'']"
  using memory_kept_on_persist_failure [of "ex_conn ''u1''" "''doc-1''" "''u1''"
          "ex_collab None (Some ''db down'')" "ex_session None" "[]" 5 "''db down''" ex_op 6]
  by (simp add: ex_collab_def ex_session_def ex_conn_def bound_def canUserEdit_def)

section \<open>Session lifecycle\<close>

text \<open>Every operation of the registry keeps sessions and buffers on the same keys.\<close>

lemma registry_inv_new: "registry_inv (new_collab thr)"
  by (simp add: registry_inv_def new_collab_def)

lemma registry_inv_joinSession: "registry_inv st \<Longrightarrow> registry_inv (joinSession st a u n t)"
  by (auto simp: registry_inv_def joinSession_def Let_def split: option.splits)

lemma registry_inv_leaveSession: "registry_inv st \<Longrightarrow> registry_inv (leaveSession st a u)"
  by (auto simp: registry_inv_def leaveSession_def Let_def split: option.splits if_splits)

lemma registry_inv_canUserEdit: "registry_inv st \<Longrightarrow> registry_inv (snd (canUserEdit st a u now))"
  by (auto simp: registry_inv_def canUserEdit_def split: option.splits if_splits)

lemma registry_inv_applyOperation: "registry_inv st \<Longrightarrow> registry_inv (snd (applyOperation st a op))"
  by (auto simp: registry_inv_def applyOperation_def Let_def split: option.splits if_splits)

lemma registry_inv_lockAsset: "registry_inv st \<Longrightarrow> registry_inv (snd (lockAsset st a u now now'))"
  by (auto simp: registry_inv_def lockAsset_def grantLock_def Let_def split: option.splits if_splits)

lemma registry_inv_releaseLock: "registry_inv st \<Longrightarrow> registry_inv (snd (releaseLock st a u))"
  by (auto simp: registry_inv_def releaseLock_def Let_def split: option.splits if_splits)

lemma registry_inv_iff:
  "registry_inv st = (\<forall>k. (sessions st k = None) = (operations st k = None))"
proof
  assume "registry_inv st"
  then have d: "dom (sessions st) = dom (operations st)" by (simp add: registry_inv_def)
  show "\<forall>k. (sessions st k = None) = (operations st k = None)"
  proof
    fix k
    have "(sessions st k = None) = (k \<notin> dom (sessions st))" by (simp only: domIff simp_thms)
    also have "\<dots> = (k \<notin> dom (operations st))" by (simp only: d)
    also have "\<dots> = (operations st k = None)" by (simp only: domIff simp_thms)
    finally show "(sessions st k = None) = (operations st k = None)" .
  qed
next
  assume h: "\<forall>k. (sessions st k = None) = (operations st k = None)"
  have "\<And>k. (k \<in> dom (sessions st)) = (k \<in> dom (operations st))"
    by (simp only: domIff h)
  then show "registry_inv st"
    unfolding registry_inv_def by (rule set_eqI)
qed

lemma registry_inv_cleanup: "registry_inv st \<Longrightarrow> registry_inv (snd (cleanup st now))"
proof -
  assume "registry_inv st"
  then have h: "\<And>k. (operations st k = None) = (sessions st k = None)"
    by (simp only: registry_inv_iff)
  have "(sessions (snd (cleanup st now)) k = None) = (operations (snd (cleanup st now)) k = None)" for k
    by (cases "db_throws st (db_calls st)"; cases "sessions st k")
       (simp_all add: cleanup_def Let_def h)
  then show ?thesis by (simp only: registry_inv_iff simp_thms)
qed

lemma registry_inv_on_operation:
  "registry_inv st \<Longrightarrow> registry_inv (snd (on_operation st c data now now2))"
  using registry_inv_canUserEdit registry_inv_applyOperation
  by (auto simp: on_operation_def split: option.splits prod.splits bool.splits sum.splits
      dest!: arg_cong [where f = snd])

lemma find_user_None: "(find (\<lambda>x. user_id x = u) us = None) = (u \<notin> user_id ` set us)"
  by (auto simp: find_None_iff)

lemma joinSession_member:
  "sessions st a = Some s \<Longrightarrow> u \<in> user_id ` set (users s) \<Longrightarrow> joinSession st a u n t = st"
  by (simp add: joinSession_def find_user_None)

lemma joinSession_is_member:
  "\<exists>s. sessions (joinSession st a u n t) a = Some s \<and> u \<in> user_id ` set (users s)"
  by (auto simp: joinSession_def find_user_None Let_def split: option.splits)

lemma leaveSession_users:
  "sessions st a = Some s \<Longrightarrow>
   getActiveUsers (leaveSession st a u) a = filter (\<lambda>x. user_id x \<noteq> u) (users s)"
  by (simp add: leaveSession_def getActiveUsers_def Let_def)

lemma leaveSession_stays:
  "sessions st a = Some s \<Longrightarrow> filter (\<lambda>x. user_id x \<noteq> u) (users s) \<noteq> [] \<Longrightarrow>
   leaveSession st a u =
     st\<lparr>sessions := (sessions st)(a \<mapsto> s\<lparr>users := filter (\<lambda>x. user_id x \<noteq> u) (users s)\<rparr>)\<rparr>"
  by (simp add: leaveSession_def Let_def)

lemma leaveSession_last:
  "sessions st a = Some s \<Longrightarrow> filter (\<lambda>x. user_id x \<noteq> u) (users s) = [] \<Longrightarrow>
   leaveSession st a u =
     st\<lparr>sessions := (sessions st)(a := None), operations := (operations st)(a := None)\<rparr>"
  by (simp add: leaveSession_def Let_def)

lemma leaveSession_none: "sessions st a = None \<Longrightarrow> leaveSession st a u = st"
  by (simp add: leaveSession_def)

lemma leaveSession_two:
  assumes s: "sessions st a = Some s"
    and m: "\<forall>x \<in> set (users s). user_id x = u \<or> user_id x = v"
  shows "sessions (leaveSession (leaveSession st a u) a v) a = None \<and>
         operations (leaveSession (leaveSession st a u) a v) a = None"
proof (cases "filter (\<lambda>x. user_id x \<noteq> u) (users s) = []")
  case True
  let ?st1 = "st\<lparr>sessions := (sessions st)(a := None), operations := (operations st)(a := None)\<rparr>"
  have "leaveSession st a u = ?st1" using s True by (rule leaveSession_last)
  moreover have "leaveSession ?st1 a v = ?st1" by (rule leaveSession_none) simp
  ultimately show ?thesis by simp
next
  case False
  let ?us = "filter (\<lambda>x. user_id x \<noteq> u) (users s)"
  let ?st1 = "st\<lparr>sessions := (sessions st)(a \<mapsto> s\<lparr>users := ?us\<rparr>)\<rparr>"
  have l1: "leaveSession st a u = ?st1" using s False by (rule leaveSession_stays)
  have s1: "sessions ?st1 a = Some (s\<lparr>users := ?us\<rparr>)" by simp
  have "filter (\<lambda>x. user_id x \<noteq> v) (users (s\<lparr>users := ?us\<rparr>)) = []"
    using m by (auto simp: filter_empty_conv)
  from leaveSession_last [OF s1 this] show ?thesis by (simp add: l1)
qed

text \<open>
  C6. \<open>joinSession\<close> is a total function without an error result. On an asset without a
  session it creates one whose only member is the user, with an empty buffer; afterwards
  the user is always a member; for a user who is a member already it changes nothing, so
  joining twice is joining once. \<open>leaveSession\<close> on a session leaves exactly the members
  other than the leaving user: while some remain the session keeps them and nothing else
  changes, and when none remain the session and its buffer are removed and
  \<open>getActiveUsers\<close> returns the empty list. So a session of two users is gone after
  both have left. Without a session \<open>leaveSession\<close> changes nothing.
\<close>

theorem join_leave_lifecycle:
  "(sessions st a = None \<longrightarrow>
      getActiveUsers (joinSession st a u n t) a =
        [\<lparr>user_id = u, user_name = n, cursor = None, selection = None\<rparr>] \<and>
      operations (joinSession st a u n t) a = Some []) \<and>
   u \<in> user_id ` set (getActiveUsers (joinSession st a u n t) a) \<and>
   (u \<in> user_id ` set (getActiveUsers st a) \<longrightarrow> joinSession st a u n t = st) \<and>
   joinSession (joinSession st a u n t) a u n' t' = joinSession st a u n t \<and>
   (sessions st a \<noteq> None \<and> (\<forall>x \<in> set (getActiveUsers st a). user_id x = u) \<longrightarrow>
      sessions (leaveSession st a u) a = None \<and>
      operations (leaveSession st a u) a = None \<and>
      getActiveUsers (leaveSession st a u) a = []) \<and>
   (sessions st a = Some s \<longrightarrow>
      getActiveUsers (leaveSession st a u) a = filter (\<lambda>x. user_id x \<noteq> u) (users s) \<and>
      (filter (\<lambda>x. user_id x \<noteq> u) (users s) \<noteq> [] \<longrightarrow>
         leaveSession st a u =
           st\<lparr>sessions := (sessions st)(a \<mapsto>
                s\<lparr>users := filter (\<lambda>x. user_id x \<noteq> u) (users s)\<rparr>)\<rparr>) \<and>
      (filter (\<lambda>x. user_id x \<noteq> u) (users s) = [] \<longrightarrow>
         leaveSession st a u =
           st\<lparr>sessions := (sessions st)(a := None),
              operations := (operations st)(a := None)\<rparr>) \<and>
      ((\<forall>x \<in> set (users s). user_id x = u \<or> user_id x = v) \<longrightarrow>
         sessions (leaveSession (leaveSession st a u) a v) a = None \<and>
         operations (leaveSession (leaveSession st a u) a v) a = None \<and>
         getActiveUsers (leaveSession (leaveSession st a u) a v) a = [])) \<and>
   (sessions st a = None \<longrightarrow> leaveSession st a u = st)"
proof (intro conjI)
  show "sessions st a = None \<longrightarrow>
      getActiveUsers (joinSession st a u n t) a =
        [\<lparr>user_id = u, user_name = n, cursor = None, selection = None\<rparr>] \<and>
      operations (joinSession st a u n t) a = Some []"
    by (simp add: joinSession_def getActiveUsers_def Let_def)
next
  from joinSession_is_member [of st a u n t]
  show "u \<in> user_id ` set (getActiveUsers (joinSession st a u n t) a)"
    by (auto simp: getActiveUsers_def)
next
  show "u \<in> user_id ` set (getActiveUsers st a) \<longrightarrow> joinSession st a u n t = st"
  proof
    assume m: "u \<in> user_id ` set (getActiveUsers st a)"
    then obtain s' where "sessions st a = Some s'" and "u \<in> user_id ` set (users s')"
      by (cases "sessions st a") (simp_all add: getActiveUsers_def)
    then show "joinSession st a u n t = st"
      by (rule joinSession_member)
  qed
next
  from joinSession_is_member [of st a u n t]
  show "joinSession (joinSession st a u n t) a u n' t' = joinSession st a u n t"
    by (auto simp: joinSession_member)
next
  show "sessions st a \<noteq> None \<and> (\<forall>x \<in> set (getActiveUsers st a). user_id x = u) \<longrightarrow>
      sessions (leaveSession st a u) a = None \<and>
      operations (leaveSession st a u) a = None \<and>
      getActiveUsers (leaveSession st a u) a = []"
  proof
    assume h: "sessions st a \<noteq> None \<and> (\<forall>x \<in> set (getActiveUsers st a). user_id x = u)"
    then obtain s' where s': "sessions st a = Some s'" by auto
    with h have "filter (\<lambda>x. user_id x \<noteq> u) (users s') = []"
      by (auto simp: getActiveUsers_def filter_empty_conv)
    with s' show "sessions (leaveSession st a u) a = None \<and>
      operations (leaveSession st a u) a = None \<and>
      getActiveUsers (leaveSession st a u) a = []"
      by (simp add: leaveSession_def getActiveUsers_def)
  qed
next
  show "sessions st a = Some s \<longrightarrow>
      getActiveUsers (leaveSession st a u) a = filter (\<lambda>x. user_id x \<noteq> u) (users s) \<and>
      (filter (\<lambda>x. user_id x \<noteq> u) (users s) \<noteq> [] \<longrightarrow>
         leaveSession st a u =
           st\<lparr>sessions := (sessions st)(a \<mapsto>
                s\<lparr>users := filter (\<lambda>x. user_id x \<noteq> u) (users s)\<rparr>)\<rparr>) \<and>
      (filter (\<lambda>x. user_id x \<noteq> u) (users s) = [] \<longrightarrow>
         leaveSession st a u =
           st\<lparr>sessions := (sessions st)(a := None),
              operations := (operations st)(a := None)\<rparr>) \<and>
      ((\<forall>x \<in> set (users s). user_id x = u \<or> user_id x = v) \<longrightarrow>
         sessions (leaveSession (leaveSession st a u) a v) a = None \<and>
         operations (leaveSession (leaveSession st a u) a v) a = None \<and>
         getActiveUsers (leaveSession (leaveSession st a u) a v) a = [])"
  proof (intro impI conjI)
    assume s: "sessions st a = Some s"
    show "getActiveUsers (leaveSession st a u) a = filter (\<lambda>x. user_id x \<noteq> u) (users s)"
      using s by (rule leaveSession_users)
    show "leaveSession st a u =
           st\<lparr>sessions := (sessions st)(a \<mapsto>
                s\<lparr>users := filter (\<lambda>x. user_id x \<noteq> u) (users s)\<rparr>)\<rparr>"
      if "filter (\<lambda>x. user_id x \<noteq> u) (users s) \<noteq> []"
      using s that by (rule leaveSession_stays)
    show "leaveSession st a u =
           st\<lparr>sessions := (sessions st)(a := None),
              operations := (operations st)(a := None)\<rparr>"
      if "filter (\<lambda>x. user_id x \<noteq> u) (users s) = []"
      using s that by (rule leaveSession_last)
    assume m: "\<forall>x \<in> set (users s). user_id x = u \<or> user_id x = v"
    from leaveSession_two [OF s m]
    show "sessions (leaveSession (leaveSession st a u) a v) a = None"
      and "operations (leaveSession (leaveSession st a u) a v) a = None"
      and "getActiveUsers (leaveSession (leaveSession st a u) a v) a = []"
      by (simp_all add: getActiveUsers_def)
  qed
next
  show "sessions st a = None \<longrightarrow> leaveSession st a u = st"
    by (simp add: leaveSession_none)
qed

theorem join_leave_lifecycle_witness:
  "getActiveUsers (joinSession ex_empty ''doc-1'' ''u1'' ''Ada'' 0) ''doc-1'' =
     [\<lparr>user_id = ''u1'', user_name = ''Ada'', cursor = None, selection = None\<rparr>] \<and>
   joinSession (ex_collab None None) ''doc-1'' ''u1'' ''Ada'' 9 = ex_collab None None \<and>
   sessions (leaveSession (ex_collab None None) ''doc-1'' ''u1'') ''doc-1'' = None \<and>
   operations (leaveSession (ex_collab None None) ''doc-1'' ''u1'') ''doc-1'' = None \<and>
   getActiveUsers (leaveSession (ex_collab None None) ''doc-1'' ''u1'') ''doc-1'' = [] \<and>
   getActiveUsers (leaveSession ex_collab2 ''doc-1'' ''u1'') ''doc-1'' =
     [\<lparr>user_id = ''u2'', user_name = ''Bob'', cursor = None, selection = None\<rparr>] \<and>
   operations (leaveSession ex_collab2 ''doc-1'' ''u1'') ''doc-1'' = Some [] \<and>
   sessions (leaveSession (leaveSession ex_collab2 ''doc-1'' ''u1'') ''doc-1'' ''u2'') ''doc-1'' = None \<and>
   operations (leaveSession (leaveSession ex_collab2 ''doc-1'' ''u1'') ''doc-1'' ''u2'') ''doc-1'' = None \<and>
   getActiveUsers (leaveSession (leaveSession ex_collab2 ''doc-1'' ''u1'') ''doc-1'' ''u2'') ''doc-1'' = [] \<and>
   leaveSession ex_empty ''doc-1'' ''u1'' = ex_empty"
  using join_leave_lifecycle [of ex_empty "''doc-1''" "''u1''" "''Ada''" 0 "''Ada''" 0
          "ex_session None" "''u2''"]
        join_leave_lifecycle [of "ex_collab None None" "''doc-1''" "''u1''" "''Ada''" 9 "''Ada''" 9
          "ex_session None" "''u2''"]
        join_leave_lifecycle [of ex_collab2 "''doc-1''" "''u1''" "''Ada''" 9 "''Ada''" 9
          ex_session2 "''u2''"]
  by (simp add: ex_empty_def new_collab_def ex_collab_def ex_session_def ex_collab2_def
      ex_session2_def getActiveUsers_def leaveSession_def)

section \<open>Reverting\<close>

lemma prisma_ok:
  "v_throws db (v_calls db) = None \<Longrightarrow> prisma db = (None, db\<lparr>v_calls := Suc (v_calls db)\<rparr>)"
  by (simp add: prisma_def)

lemma findUnique_calls [simp]: "findUnique (db\<lparr>v_calls := n\<rparr>) i = findUnique db i"
  by (simp add: findUnique_def)

lemma getVersion_ok:
  "v_throws db (v_calls db) = None \<Longrightarrow>
   getVersion db i = (Inr (findUnique db i), db\<lparr>v_calls := Suc (v_calls db)\<rparr>)"
  by (simp add: getVersion_def prisma_ok)

lemma createVersion_ok:
  "v_throws db (v_calls db) = None \<Longrightarrow>
   createVersion db a uid cs descr tgs new_id now =
     (Inr \<lparr>version_id = new_id, v_assetId = a, v_userId = uid, v_timestamp = now,
            changes = cs, tags = tgs, description = descr\<rparr>,
      db\<lparr>v_calls := Suc (v_calls db),
         assetVersion := assetVersion db @
           [\<lparr>version_id = new_id, v_assetId = a, v_userId = uid, v_timestamp = now,
             changes = cs, tags = tgs, description = descr\<rparr>]\<rparr>)"
  by (simp add: createVersion_def prisma_ok Let_def)

lemma createVersion_keeps:
  "take (length (assetVersion db)) (assetVersion (snd (createVersion db a uid cs descr tgs new_id now)))
     = assetVersion db"
  by (simp add: createVersion_def prisma_def Let_def split: option.splits)

lemma getVersion_keeps: "assetVersion (snd (getVersion db i)) = assetVersion db"
  by (simp add: getVersion_def prisma_def split: option.splits)

lemma revert_keeps:
  "take (length (assetVersion db)) (assetVersion (snd (revertToVersion db a i uid new_id now)))
     = assetVersion db"
proof (cases "getVersion db i")
  case (Pair r db1)
  then have k: "assetVersion db1 = assetVersion db"
    using getVersion_keeps [of db i] by simp
  show ?thesis
  proof (cases r)
    case (Inl e)
    with Pair k show ?thesis by (simp add: revertToVersion_def)
  next
    case (Inr o1)
    show ?thesis
    proof (cases o1)
      case None
      with Pair Inr k show ?thesis by (simp add: revertToVersion_def)
    next
      case (Some v)
      with Pair Inr k createVersion_keeps [of db1] show ?thesis
        by (simp add: revertToVersion_def)
    qed
  qed
qed

text \<open>
  C4. \<open>revertToVersion\<close> fails with \<open>VersionNotFound\<close> and writes nothing when the
  target does not resolve. When it resolves and the store accepts the create, the result
  is a new version for the given asset whose changes are the inverses of the target's,
  tagged \<open>revert\<close>, with the description \<open>Reverted to version\<close> followed by the
  target id; the table is the old table with that version appended, so the asset has one
  version more. In every case the versions stored before are still there, unchanged. The
  inverse of an add is a delete whose \<open>previousContent\<close> is the add's content, of a delete
  an add whose content is the delete's \<open>previousContent\<close>, and a modify has its two
  contents swapped.
\<close>

theorem revert_is_append_only:
  "(v_throws db (v_calls db) = None \<and> findUnique db i = None \<longrightarrow>
      fst (revertToVersion db a i uid new_id now) = Inl VersionNotFound \<and>
      assetVersion (snd (revertToVersion db a i uid new_id now)) = assetVersion db) \<and>
   (v_throws db (v_calls db) = None \<and> v_throws db (Suc (v_calls db)) = None \<and>
    findUnique db i = Some v \<longrightarrow>
      fst (revertToVersion db a i uid new_id now) =
        Inr \<lparr>version_id = new_id, v_assetId = a, v_userId = uid, v_timestamp = now,
             changes = map inverseChange (changes v), tags = [''revert''],
             description = ''Reverted to version '' @ i\<rparr> \<and>
      assetVersion (snd (revertToVersion db a i uid new_id now)) =
        assetVersion db @
          [\<lparr>version_id = new_id, v_assetId = a, v_userId = uid, v_timestamp = now,
            changes = map inverseChange (changes v), tags = [''revert''],
            description = ''Reverted to version '' @ i\<rparr>] \<and>
      count_for (snd (revertToVersion db a i uid new_id now)) a = Suc (count_for db a)) \<and>
   take (length (assetVersion db)) (assetVersion (snd (revertToVersion db a i uid new_id now)))
     = assetVersion db \<and>
   (ctype c = ChAdd \<longrightarrow>
      inverseChange c = \<lparr>ctype = ChDelete, path = path c, content = None,
                         previousContent = content c, metadata = None\<rparr>) \<and>
   (ctype c = ChDelete \<longrightarrow>
      inverseChange c = \<lparr>ctype = ChAdd, path = path c, content = previousContent c,
                         previousContent = None, metadata = None\<rparr>) \<and>
   (ctype c = ChModify \<longrightarrow>
      inverseChange c = \<lparr>ctype = ChModify, path = path c, content = previousContent c,
                         previousContent = content c, metadata = None\<rparr>)"
proof (intro conjI impI)
  assume "v_throws db (v_calls db) = None \<and> findUnique db i = None"
  then show "fst (revertToVersion db a i uid new_id now) = Inl VersionNotFound"
    and "assetVersion (snd (revertToVersion db a i uid new_id now)) = assetVersion db"
    by (simp_all add: revertToVersion_def getVersion_ok)
next
  assume h: "v_throws db (v_calls db) = None \<and> v_throws db (Suc (v_calls db)) = None \<and>
    findUnique db i = Some v"
  let ?db1 = "db\<lparr>v_calls := Suc (v_calls db)\<rparr>"
  from h have c: "v_throws ?db1 (v_calls ?db1) = None" by simp
  from h have r: "revertToVersion db a i uid new_id now =
      createVersion ?db1 a uid (map inverseChange (changes v))
        (''Reverted to version '' @ i) [''revert''] new_id now"
    by (simp add: revertToVersion_def getVersion_ok)
  show "fst (revertToVersion db a i uid new_id now) =
        Inr \<lparr>version_id = new_id, v_assetId = a, v_userId = uid, v_timestamp = now,
             changes = map inverseChange (changes v), tags = [''revert''],
             description = ''Reverted to version '' @ i\<rparr>"
    by (simp only: r createVersion_ok [OF c] fst_conv)
  show "assetVersion (snd (revertToVersion db a i uid new_id now)) =
        assetVersion db @
          [\<lparr>version_id = new_id, v_assetId = a, v_userId = uid, v_timestamp = now,
            changes = map inverseChange (changes v), tags = [''revert''],
            description = ''Reverted to version '' @ i\<rparr>]"
    by (simp add: r createVersion_ok [OF c])
  then show "count_for (snd (revertToVersion db a i uid new_id now)) a = Suc (count_for db a)"
    by (simp add: count_for_def)
next
  show "take (length (assetVersion db))
      (assetVersion (snd (revertToVersion db a i uid new_id now))) = assetVersion db"
    by (rule revert_keeps)
qed (simp_all add: inverseChange_def)

theorem revert_is_append_only_witness:
  "fst (revertToVersion (ex_vdb []) ''doc-1'' ''v0'' ''u2'' ''v2'' 20) = Inl VersionNotFound \<and>
   fst (revertToVersion (ex_vdb []) ''doc-1'' ''v1'' ''u2'' ''v2'' 20) =
     Inr \<lparr>version_id = ''v2'', v_assetId = ''doc-1'', v_userId = ''u2'', v_timestamp = 20,
          changes = [\<lparr>ctype = ChDelete, path = ''/a.txt'', content = None,
                      previousContent = Some ''hello'', metadata = None\<rparr>],
          tags = [''revert''], description = ''Reverted to version v1''\<rparr> \<and>
   count_for (snd (revertToVersion (ex_vdb []) ''doc-1'' ''v1'' ''u2'' ''v2'' 20)) ''doc-1'' = 2 \<and>
   inverseChange \<lparr>ctype = ChDelete, path = ''/a.txt'', content = None,
                   previousContent = Some ''old'', metadata = None\<rparr> =
     \<lparr>ctype = ChAdd, path = ''/a.txt'', content = Some ''old'',
      previousContent = None, metadata = None\<rparr> \<and>
   inverseChange \<lparr>ctype = ChModify, path = ''/a.txt'', content = Some ''new'',
                   previousContent = Some ''old'', metadata = None\<rparr> =
     \<lparr>ctype = ChModify, path = ''/a.txt'', content = Some ''old'',
      previousContent = Some ''new'', metadata = None\<rparr>"
  using revert_is_append_only [of "ex_vdb []" "''v0''" "''doc-1''" "''u2''" "''v2''" 20 "ex_version []"
          "\<lparr>ctype = ChAdd, path = ''/a.txt'', content = Some ''hello'', previousContent = None,
            metadata = None\<rparr>"]
        revert_is_append_only [of "ex_vdb []" "''v1''" "''doc-1''" "''u2''" "''v2''" 20 "ex_version []"
          "\<lparr>ctype = ChDelete, path = ''/a.txt'', content = None, previousContent = Some ''old'',
            metadata = None\<rparr>"]
        revert_is_append_only [of "ex_vdb []" "''v1''" "''doc-1''" "''u2''" "''v2''" 20 "ex_version []"
          "\<lparr>ctype = ChModify, path = ''/a.txt'', content = Some ''new'',
            previousContent = Some ''old'', metadata = None\<rparr>"]
  by (simp add: ex_vdb_def ex_version_def findUnique_def count_for_def inverseChange_def)

section \<open>Comparing two versions\<close>

lemma comparePath_path: "comparePath d cs1 cs2 p = Some c \<Longrightarrow> path c = p"
  by (auto simp: comparePath_def split: option.splits if_splits)

lemma compareLoop_paths: "set (map path (compareLoop d cs1 cs2 ps)) \<subseteq> set ps"
  by (induction ps) (auto split: option.splits dest: comparePath_path)

lemma compareLoop_distinct: "distinct ps \<Longrightarrow> distinct (map path (compareLoop d cs1 cs2 ps))"
proof (induction ps)
  case Nil
  then show ?case by simp
next
  case (Cons p ps)
  have "p \<notin> set (map path (compareLoop d cs1 cs2 ps))"
    using compareLoop_paths [of d cs1 cs2 ps] Cons.prems by auto
  with Cons show ?case
    by (auto split: option.splits dest: comparePath_path)
qed

lemma compareLoop_at_notin: "p \<notin> set ps \<Longrightarrow> changes_at (compareLoop d cs1 cs2 ps) p = []"
  using compareLoop_paths [of d cs1 cs2 ps]
  by (auto simp: changes_at_def filter_empty_conv)

lemma compareLoop_at:
  "distinct ps \<Longrightarrow> p \<in> set ps \<Longrightarrow>
   changes_at (compareLoop d cs1 cs2 ps) p =
     (case comparePath d cs1 cs2 p of None \<Rightarrow> [] | Some c \<Rightarrow> [c])"
proof (induction ps)
  case Nil
  then show ?case by simp
next
  case (Cons q ps)
  show ?case
  proof (cases "q = p")
    case True
    with Cons.prems have "p \<notin> set ps" by simp
    then have "changes_at (compareLoop d cs1 cs2 ps) p = []" by (rule compareLoop_at_notin)
    with True show ?thesis
      by (auto simp: changes_at_def split: option.splits dest: comparePath_path)
  next
    case False
    with Cons have "changes_at (compareLoop d cs1 cs2 ps) p =
        (case comparePath d cs1 cs2 p of None \<Rightarrow> [] | Some c \<Rightarrow> [c])" by simp
    with False show ?thesis
      by (auto simp: changes_at_def split: option.splits dest: comparePath_path)
  qed
qed

lemma set_order_distinct: "distinct (set_order xs)"
  by (simp add: set_order_def)

lemma set_order_set: "set (set_order xs) = set xs"
  by (simp add: set_order_def)

lemma first_at_None: "(first_at cs p = None) = (p \<notin> path ` set cs)"
  by (auto simp: first_at_def find_None_iff)

lemma diffChanges_at:
  "changes_at (diffChanges d cs1 cs2) p =
     (if p \<in> path ` set cs1 \<union> path ` set cs2
      then (case comparePath d cs1 cs2 p of None \<Rightarrow> [] | Some c \<Rightarrow> [c]) else [])"
proof (cases "p \<in> path ` set cs1 \<union> path ` set cs2")
  case True
  then have "p \<in> set (set_order (map path cs1 @ map path cs2))"
    by (simp add: set_order_set)
  with True show ?thesis
    by (simp add: diffChanges_def compareLoop_at set_order_distinct)
next
  case False
  then have "p \<notin> set (set_order (map path cs1 @ map path cs2))"
    by (simp add: set_order_set)
  with False show ?thesis
    by (simp add: diffChanges_def compareLoop_at_notin)
qed

lemma diffChanges_distinct: "distinct (map path (diffChanges d cs1 cs2))"
  by (simp add: diffChanges_def compareLoop_distinct set_order_distinct)

lemma diffChanges_paths:
  "path ` set (diffChanges d cs1 cs2) \<subseteq> path ` set cs1 \<union> path ` set cs2"
  using compareLoop_paths [of d cs1 cs2 "set_order (map path cs1 @ map path cs2)"]
  by (simp add: diffChanges_def set_order_set)

lemma compareVersions_ok:
  assumes "v_throws db (v_calls db) = None" and "v_throws db (Suc (v_calls db)) = None"
  shows "fst (compareVersions d db i1 i2) =
     (case (findUnique db i1, findUnique db i2) of
        (Some A, Some B) \<Rightarrow> Inr (diffChanges d (changes A) (changes B))
      | _ \<Rightarrow> Inl VersionsNotFound)"
proof -
  let ?db1 = "db\<lparr>v_calls := Suc (v_calls db)\<rparr>"
  from assms have "v_throws ?db1 (v_calls ?db1) = None" by simp
  then have g2: "getVersion ?db1 i2 = (Inr (findUnique db i2), ?db1\<lparr>v_calls := Suc (v_calls ?db1)\<rparr>)"
    using getVersion_ok [of ?db1 i2] by simp
  show ?thesis
    by (simp add: compareVersions_def getVersion_ok [OF assms(1)] g2 split: option.splits)
qed

text \<open>
  C5. When both reads are answered, \<open>compareVersions\<close> fails with the version-not-found
  error if either id does not resolve. Otherwise it returns changes with pairwise
  different paths, all from the paths of the two versions, and for a path \<open>p\<close>, with the
  first change for \<open>p\<close> in each version deciding: only in the second version, one add
  with that content; only in the first, one delete with that content as
  \<open>previousContent\<close>; in both with different contents, one modify with both contents and
  the text diff of the two as metadata; in both with equal contents, nothing.
\<close>

theorem compareVersions_rules:
  assumes "v_throws db (v_calls db) = None" and "v_throws db (Suc (v_calls db)) = None"
  shows "(findUnique db i1 = None \<or> findUnique db i2 = None \<longrightarrow>
            fst (compareVersions d db i1 i2) = Inl VersionsNotFound) \<and>
         (findUnique db i1 = Some A \<and> findUnique db i2 = Some B \<longrightarrow>
            (\<exists>cs. fst (compareVersions d db i1 i2) = Inr cs \<and>
               distinct (map path cs) \<and>
               path ` set cs \<subseteq> path ` set (changes A) \<union> path ` set (changes B) \<and>
               (first_at (changes A) p = None \<and> first_at (changes B) p = Some c2 \<longrightarrow>
                  changes_at cs p = [\<lparr>ctype = ChAdd, path = p, content = content c2,
                                       previousContent = None, metadata = None\<rparr>]) \<and>
               (first_at (changes A) p = Some c1 \<and> first_at (changes B) p = None \<longrightarrow>
                  changes_at cs p = [\<lparr>ctype = ChDelete, path = p, content = None,
                                       previousContent = content c1, metadata = None\<rparr>]) \<and>
               (first_at (changes A) p = Some c1 \<and> first_at (changes B) p = Some c2 \<and>
                content c1 \<noteq> content c2 \<longrightarrow>
                  changes_at cs p = [\<lparr>ctype = ChModify, path = p, content = content c2,
                                       previousContent = content c1,
                                       metadata = Some (d (or_empty (content c1))
                                                          (or_empty (content c2)))\<rparr>]) \<and>
               (first_at (changes A) p = Some c1 \<and> first_at (changes B) p = Some c2 \<and>
                content c1 = content c2 \<longrightarrow> changes_at cs p = [])))"
proof (intro conjI impI)
  assume "findUnique db i1 = None \<or> findUnique db i2 = None"
  then show "fst (compareVersions d db i1 i2) = Inl VersionsNotFound"
    by (auto simp: compareVersions_ok [OF assms] split: option.splits)
next
  assume h: "findUnique db i1 = Some A \<and> findUnique db i2 = Some B"
  let ?cs = "diffChanges d (changes A) (changes B)"
  have r: "fst (compareVersions d db i1 i2) = Inr ?cs"
    using h by (simp add: compareVersions_ok [OF assms])
  have add: "first_at (changes A) p = None \<and> first_at (changes B) p = Some c2 \<longrightarrow>
      changes_at ?cs p = [\<lparr>ctype = ChAdd, path = p, content = content c2,
                           previousContent = None, metadata = None\<rparr>]"
  proof
    assume a: "first_at (changes A) p = None \<and> first_at (changes B) p = Some c2"
    then have "first_at (changes B) p \<noteq> None" by simp
    then have "p \<in> path ` set (changes B)" by (simp only: first_at_None simp_thms)
    with a show "changes_at ?cs p = [\<lparr>ctype = ChAdd, path = p, content = content c2,
                           previousContent = None, metadata = None\<rparr>]"
      by (simp add: diffChanges_at comparePath_def first_at_def)
  qed
  have del: "first_at (changes A) p = Some c1 \<and> first_at (changes B) p = None \<longrightarrow>
      changes_at ?cs p = [\<lparr>ctype = ChDelete, path = p, content = None,
                           previousContent = content c1, metadata = None\<rparr>]"
  proof
    assume a: "first_at (changes A) p = Some c1 \<and> first_at (changes B) p = None"
    then have "first_at (changes A) p \<noteq> None" by simp
    then have "p \<in> path ` set (changes A)" by (simp only: first_at_None simp_thms)
    with a show "changes_at ?cs p = [\<lparr>ctype = ChDelete, path = p, content = None,
                           previousContent = content c1, metadata = None\<rparr>]"
      by (simp add: diffChanges_at comparePath_def first_at_def)
  qed
  have both: "first_at (changes A) p = Some c1 \<and> first_at (changes B) p = Some c2 \<longrightarrow>
      changes_at ?cs p =
        (if content c1 \<noteq> content c2
         then [\<lparr>ctype = ChModify, path = p, content = content c2,
                 previousContent = content c1,
                 metadata = Some (d (or_empty (content c1)) (or_empty (content c2)))\<rparr>]
         else [])"
  proof
    assume a: "first_at (changes A) p = Some c1 \<and> first_at (changes B) p = Some c2"
    then have "first_at (changes A) p \<noteq> None" by simp
    then have "p \<in> path ` set (changes A)" by (simp only: first_at_None simp_thms)
    with a show "changes_at ?cs p =
        (if content c1 \<noteq> content c2
         then [\<lparr>ctype = ChModify, path = p, content = content c2,
                 previousContent = content c1,
                 metadata = Some (d (or_empty (content c1)) (or_empty (content c2)))\<rparr>]
         else [])"
      by (simp add: diffChanges_at comparePath_def first_at_def)
  qed
  show "\<exists>cs. fst (compareVersions d db i1 i2) = Inr cs \<and>
               distinct (map path cs) \<and>
               path ` set cs \<subseteq> path ` set (changes A) \<union> path ` set (changes B) \<and>
               (first_at (changes A) p = None \<and> first_at (changes B) p = Some c2 \<longrightarrow>
                  changes_at cs p = [\<lparr>ctype = ChAdd, path = p, content = content c2,
                                       previousContent = None, metadata = None\<rparr>]) \<and>
               (first_at (changes A) p = Some c1 \<and> first_at (changes B) p = None \<longrightarrow>
                  changes_at cs p = [\<lparr>ctype = ChDelete, path = p, content = None,
                                       previousContent = content c1, metadata = None\<rparr>]) \<and>
               (first_at (changes A) p = Some c1 \<and> first_at (changes B) p = Some c2 \<and>
                content c1 \<noteq> content c2 \<longrightarrow>
                  changes_at cs p = [\<lparr>ctype = ChModify, path = p, content = content c2,
                                       previousContent = content c1,
                                       metadata = Some (d (or_empty (content c1))
                                                          (or_empty (content c2)))\<rparr>]) \<and>
               (first_at (changes A) p = Some c1 \<and> first_at (changes B) p = Some c2 \<and>
                content c1 = content c2 \<longrightarrow> changes_at cs p = [])"
    using r add del both diffChanges_distinct [of d "changes A" "changes B"]
      diffChanges_paths [of d "changes A" "changes B"]
    by (intro exI [of _ ?cs]) simp
qed

theorem compareVersions_rules_witness:
  "fst (compareVersions ex_differ ex_vdb2 ''v1'' ''v9'') = Inl VersionsNotFound \<and>
   fst (compareVersions ex_differ ex_vdb2 ''v1'' ''v2'') =
     Inr [\<lparr>ctype = ChModify, path = ''/a.txt'', content = Some ''world'',
            previousContent = Some ''hello'',
            metadata = Some [(DIFF_DELETE, ''hello''), (DIFF_INSERT, ''world'')]\<rparr>,
          \<lparr>ctype = ChAdd, path = ''/b.txt'', content = Some ''new'',
            previousContent = None, metadata = None\<rparr>] \<and>
   fst (compareVersions ex_differ ex_vdb2 ''v2'' ''v1'') =
     Inr [\<lparr>ctype = ChModify, path = ''/a.txt'', content = Some ''hello'',
            previousContent = Some ''world'',
            metadata = Some [(DIFF_DELETE, ''world''), (DIFF_INSERT, ''hello'')]\<rparr>,
          \<lparr>ctype = ChDelete, path = ''/b.txt'', content = None,
            previousContent = Some ''new'', metadata = None\<rparr>] \<and>
   fst (compareVersions ex_differ ex_vdb2 ''v1'' ''v1'') = Inr []"
  using compareVersions_rules [of ex_vdb2 "''v1''" "''v9''" ex_differ "ex_version []" ex_version2
          "''/a.txt''" "hd (changes ex_version2)" "hd (changes (ex_version []))"]
        compareVersions_rules [of ex_vdb2 "''v1''" "''v2''" ex_differ "ex_version []" ex_version2
          "''/a.txt''" "hd (changes ex_version2)" "hd (changes (ex_version []))"]
        compareVersions_rules [of ex_vdb2 "''v1''" "''v2''" ex_differ "ex_version []" ex_version2
          "''/b.txt''" "hd (tl (changes ex_version2))" "hd (changes (ex_version []))"]
        compareVersions_rules [of ex_vdb2 "''v2''" "''v1''" ex_differ ex_version2 "ex_version []"
          "''/b.txt''" "hd (changes (ex_version []))" "hd (tl (changes ex_version2))"]
        compareVersions_rules [of ex_vdb2 "''v1''" "''v1''" ex_differ "ex_version []" "ex_version []"
          "''/a.txt''" "hd (changes (ex_version []))" "hd (changes (ex_version []))"]
  by (simp add: ex_vdb2_def ex_version_def ex_version2_def ex_differ_def findUnique_def
      compareVersions_def getVersion_def prisma_def diffChanges_def set_order_def
      comparePath_def or_empty_def)

section \<open>Tags\<close>

lemma find_updateUnique:
  "(\<And>v. version_id (f v) = version_id v) \<Longrightarrow>
   find (\<lambda>v. version_id v = i) (updateUnique i f vs) =
     map_option f (find (\<lambda>v. version_id v = i) vs)"
  by (induction vs) auto

lemma updateUnique_id:
  "find (\<lambda>v. version_id v = i) vs = Some v \<Longrightarrow> f v = v \<Longrightarrow> updateUnique i f vs = vs"
  by (induction vs) (auto split: if_splits)

lemma updateUnique_length: "length (updateUnique i f vs) = length vs"
  by (induction vs) auto

lemma addTag_missing:
  "v_throws db (v_calls db) = None \<Longrightarrow> findUnique db i = None \<Longrightarrow>
   addTag db i t = (Inl VersionNotFound, db\<lparr>v_calls := Suc (v_calls db)\<rparr>)"
  by (simp add: addTag_def prisma_ok)

lemma removeTag_missing:
  "v_throws db (v_calls db) = None \<Longrightarrow> findUnique db i = None \<Longrightarrow>
   removeTag db i t = (Inl VersionNotFound, db\<lparr>v_calls := Suc (v_calls db)\<rparr>)"
  by (simp add: removeTag_def prisma_ok)

lemma addTag_found:
  assumes "v_throws db (v_calls db) = None" and "v_throws db (Suc (v_calls db)) = None"
    and "findUnique db i = Some v"
  shows "addTag db i t =
     (Inr (), db\<lparr>v_calls := Suc (Suc (v_calls db)),
                 assetVersion := updateUnique i (\<lambda>r. r\<lparr>tags := tags r @ [t]\<rparr>) (assetVersion db)\<rparr>)"
  using assms by (simp add: addTag_def prisma_def)

lemma removeTag_found:
  assumes "v_throws db (v_calls db) = None" and "v_throws db (Suc (v_calls db)) = None"
    and "findUnique db i = Some v"
  shows "removeTag db i t =
     (Inr (), db\<lparr>v_calls := Suc (Suc (v_calls db)),
                 assetVersion := updateUnique i (\<lambda>r. r\<lparr>tags := filter (\<lambda>x. x \<noteq> t) (tags v)\<rparr>)
                   (assetVersion db)\<rparr>)"
  using assms by (simp add: removeTag_def prisma_def)

text \<open>
  C7, as stated, fails: \<open>addTag\<close> pushes without looking at the stored tags. Adding a tag
  twice, or once when it is there already, leaves it in the list twice.
\<close>

theorem addTag_twice_counterexample:
  "tag_count (snd (addTag (snd (addTag (ex_vdb []) ''v1'' ''t'')) ''v1'' ''t'')) ''v1'' ''t'' = 2 \<and>
   tag_count (snd (addTag (ex_vdb [''t'']) ''v1'' ''t'')) ''v1'' ''t'' = 2 \<and>
   tags_of (snd (addTag (ex_vdb [''t'']) ''v1'' ''t'')) ''v1'' = Some [''t'', ''t'']"
  by (simp add: tag_count_def tags_of_def addTag_def prisma_def findUnique_def ex_vdb_def
      ex_version_def)

text \<open>
  C7, amended. When the first read is answered, \<open>addTag\<close> and \<open>removeTag\<close> fail with
  \<open>VersionNotFound\<close> and write nothing if the id does not resolve. Otherwise, when the
  store accepts the update, \<open>addTag\<close> succeeds and appends the tag to the stored list, so
  that the tag occurs once more than before, and \<open>removeTag\<close> succeeds and leaves the
  stored list without any occurrence of the tag; removing a tag that is not there leaves
  the table as it was.
\<close>

theorem tag_operations:
  assumes "v_throws db (v_calls db) = None"
  shows "(findUnique db i = None \<longrightarrow>
            fst (addTag db i t) = Inl VersionNotFound \<and>
            fst (removeTag db i t) = Inl VersionNotFound \<and>
            assetVersion (snd (addTag db i t)) = assetVersion db \<and>
            assetVersion (snd (removeTag db i t)) = assetVersion db) \<and>
         (findUnique db i = Some v \<and> v_throws db (Suc (v_calls db)) = None \<longrightarrow>
            fst (addTag db i t) = Inr () \<and>
            tags_of (snd (addTag db i t)) i = Some (tags v @ [t]) \<and>
            tag_count (snd (addTag db i t)) i t = Suc (tag_count db i t) \<and>
            fst (removeTag db i t) = Inr () \<and>
            tags_of (snd (removeTag db i t)) i = Some (filter (\<lambda>x. x \<noteq> t) (tags v)) \<and>
            (t \<notin> set (tags v) \<longrightarrow>
               assetVersion (snd (removeTag db i t)) = assetVersion db))"
proof (intro conjI impI)
  assume n: "findUnique db i = None"
  show "fst (addTag db i t) = Inl VersionNotFound"
    and "fst (removeTag db i t) = Inl VersionNotFound"
    and "assetVersion (snd (addTag db i t)) = assetVersion db"
    and "assetVersion (snd (removeTag db i t)) = assetVersion db"
    by (simp_all add: addTag_missing [OF assms n] removeTag_missing [OF assms n])
next
  assume h: "findUnique db i = Some v \<and> v_throws db (Suc (v_calls db)) = None"
  then have f: "find (\<lambda>v. version_id v = i) (assetVersion db) = Some v"
    by (simp add: findUnique_def)
  from h have a: "addTag db i t =
     (Inr (), db\<lparr>v_calls := Suc (Suc (v_calls db)),
                 assetVersion := updateUnique i (\<lambda>r. r\<lparr>tags := tags r @ [t]\<rparr>) (assetVersion db)\<rparr>)"
    using addTag_found [OF assms, of i v t] by simp
  from h have r: "removeTag db i t =
     (Inr (), db\<lparr>v_calls := Suc (Suc (v_calls db)),
                 assetVersion := updateUnique i (\<lambda>r. r\<lparr>tags := filter (\<lambda>x. x \<noteq> t) (tags v)\<rparr>)
                   (assetVersion db)\<rparr>)"
    using removeTag_found [OF assms, of i v t] by simp
  show "fst (addTag db i t) = Inr ()" by (simp add: a)
  show "fst (removeTag db i t) = Inr ()" by (simp add: r)
  show ta: "tags_of (snd (addTag db i t)) i = Some (tags v @ [t])"
    by (simp add: a tags_of_def findUnique_def find_updateUnique f)
  from h have "tags_of db i = Some (tags v)" by (simp add: tags_of_def)
  with ta show "tag_count (snd (addTag db i t)) i t = Suc (tag_count db i t)"
    by (simp add: tag_count_def)
  show "tags_of (snd (removeTag db i t)) i = Some (filter (\<lambda>x. x \<noteq> t) (tags v))"
    by (simp add: r tags_of_def findUnique_def find_updateUnique f)
  assume "t \<notin> set (tags v)"
  then have "filter (\<lambda>x. x \<noteq> t) (tags v) = tags v"
    by (auto simp: filter_id_conv)
  then have "updateUnique i (\<lambda>r. r\<lparr>tags := filter (\<lambda>x. x \<noteq> t) (tags v)\<rparr>) (assetVersion db)
      = assetVersion db"
    using updateUnique_id [OF f, of "\<lambda>r. r\<lparr>tags := filter (\<lambda>x. x \<noteq> t) (tags v)\<rparr>"] by simp
  then show "assetVersion (snd (removeTag db i t)) = assetVersion db"
    by (simp add: r)
qed

theorem tag_operations_witness:
  "fst (addTag (ex_vdb [''a'']) ''v9'' ''t'') = Inl VersionNotFound \<and>
   fst (removeTag (ex_vdb [''a'']) ''v9'' ''t'') = Inl VersionNotFound \<and>
   fst (addTag (ex_vdb [''a'']) ''v1'' ''t'') = Inr () \<and>
   tags_of (snd (addTag (ex_vdb [''a'']) ''v1'' ''t'')) ''v1'' = Some [''a'', ''t''] \<and>
   fst (removeTag (ex_vdb [''a'']) ''v1'' ''t'') = Inr () \<and>
   assetVersion (snd (removeTag (ex_vdb [''a'']) ''v1'' ''t'')) = assetVersion (ex_vdb [''a'']) \<and>
   tags_of (snd (removeTag (ex_vdb [''a'', ''t'', ''a'']) ''v1'' ''a'')) ''v1'' = Some [''t'']"
  using tag_operations [of "ex_vdb [''a'']" "''v9''" "''t''" "ex_version [''a'']"]
        tag_operations [of "ex_vdb [''a'']" "''v1''" "''t''" "ex_version [''a'']"]
        tag_operations [of "ex_vdb [''a'', ''t'', ''a'']" "''v1''" "''a''" "ex_version [''a'', ''t'', ''a'']"]
  by (simp add: ex_vdb_def ex_version_def findUnique_def)

end
